theory Spec2Isabelle
  imports Complex_Main "HOL-Library.Log_Nat"
begin

section \<open>Python strings\<close>

text \<open>
  A Python \<open>str\<close> is a sequence of Unicode code points, so a string is a list of
  natural numbers.  Literals of the source are ASCII and are written with \<open>lit\<close>.
\<close>

type_synonym codepoint = nat
type_synonym pystr = "codepoint list"

definition lit :: "string \<Rightarrow> pystr" where
  "lit s = map of_char s"

definition in_ranges :: "(nat \<times> nat) list \<Rightarrow> nat \<Rightarrow> bool" where
  "in_ranges rs c = list_ex (\<lambda>(lo, hi). lo \<le> c \<and> c \<le> hi) rs"

text \<open>
  The code points for which \<open>str.isspace\<close> holds; \<open>str.strip()\<close> without an
  argument removes exactly these.
\<close>

definition whitespace_ranges :: "(nat \<times> nat) list" where
  "whitespace_ranges =
     [(9, 13), (28, 32), (133, 133), (160, 160), (5760, 5760), (8192, 8202),
      (8232, 8233), (8239, 8239), (8287, 8287), (12288, 12288)]"

definition isspace_cp :: "codepoint \<Rightarrow> bool" where
  "isspace_cp c = in_ranges whitespace_ranges c"

text \<open>
  The code points for which \<open>str.isdigit\<close> holds (Numeric_Type Decimal or Digit,
  Unicode 14.0 as shipped with CPython 3.11).  The ASCII digits are the first range;
  the others are superscripts, digits of other scripts, circled digits and the like.
\<close>

definition digit_ranges :: "(nat \<times> nat) list" where
  "digit_ranges =
     [(48, 57), (178, 179), (185, 185), (1632, 1641), (1776, 1785), (1984, 1993),
      (2406, 2415), (2534, 2543), (2662, 2671), (2790, 2799), (2918, 2927),
      (3046, 3055), (3174, 3183), (3302, 3311), (3430, 3439), (3558, 3567),
      (3664, 3673), (3792, 3801), (3872, 3881), (4160, 4169), (4240, 4249),
      (4969, 4977), (6112, 6121), (6160, 6169), (6470, 6479), (6608, 6618),
      (6784, 6793), (6800, 6809), (6992, 7001), (7088, 7097), (7232, 7241),
      (7248, 7257), (8304, 8304), (8308, 8313), (8320, 8329), (9312, 9320),
      (9332, 9340), (9352, 9360), (9450, 9450), (9461, 9469), (9471, 9471),
      (10102, 10110), (10112, 10120), (10122, 10130), (42528, 42537),
      (43216, 43225), (43264, 43273), (43472, 43481), (43504, 43513),
      (43600, 43609), (44016, 44025), (65296, 65305), (66720, 66729),
      (68160, 68163), (68912, 68921), (69216, 69224), (69714, 69722),
      (69734, 69743), (69872, 69881), (69942, 69951), (70096, 70105),
      (70384, 70393), (70736, 70745), (70864, 70873), (71248, 71257),
      (71360, 71369), (71472, 71481), (71904, 71913), (72016, 72025),
      (72784, 72793), (73040, 73049), (73120, 73129), (92768, 92777),
      (92864, 92873), (93008, 93017), (120782, 120831), (123200, 123209),
      (123632, 123641), (125264, 125273), (127232, 127242), (130032, 130041)]"

definition isdigit_cp :: "codepoint \<Rightarrow> bool" where
  "isdigit_cp c = in_ranges digit_ranges c"

definition ascii_digit :: "codepoint \<Rightarrow> bool" where
  "ascii_digit c = (48 \<le> c \<and> c \<le> 57)"

text \<open>\<open>s.strip()\<close>: whitespace removed at both ends.\<close>

definition py_lstrip :: "pystr \<Rightarrow> pystr" where
  "py_lstrip s = dropWhile isspace_cp s"

definition py_rstrip :: "pystr \<Rightarrow> pystr" where
  "py_rstrip s = rev (dropWhile isspace_cp (rev s))"

definition py_strip :: "pystr \<Rightarrow> pystr" where
  "py_strip s = py_rstrip (py_lstrip s)"

text \<open>\<open>s.isdigit()\<close>: at least one character, and every character a digit.\<close>

definition py_isdigit :: "pystr \<Rightarrow> bool" where
  "py_isdigit s = (s \<noteq> [] \<and> list_all isdigit_cp s)"

text \<open>The truth value of a string in a condition: non-empty.\<close>

definition truthy :: "pystr \<Rightarrow> bool" where
  "truthy s = (s \<noteq> [])"

text \<open>\<open>sep.join(parts)\<close>.\<close>

fun py_join :: "pystr \<Rightarrow> pystr list \<Rightarrow> pystr" where
  "py_join sep [] = []"
| "py_join sep [p] = p"
| "py_join sep (p # q # ps) = p @ sep @ py_join sep (q # ps)"

text \<open>A string with no whitespace character at either end.\<close>

definition trimmed :: "pystr \<Rightarrow> bool" where
  "trimmed s = (s = [] \<or> (\<not> isspace_cp (hd s) \<and> \<not> isspace_cp (last s)))"

section \<open>Python floats\<close>

text \<open>
  A \<open>float\<close> is an IEEE 754 binary64 value.  A finite one is modelled by the rational
  number it denotes (the two zeros are not told apart: they compare equal in Python).
  \<open>round_binary64\<close> rounds a rational to the nearest binary64 value, ties to even,
  with gradual underflow; a result of magnitude \<open>2 ^ 1024\<close> or more is an overflow.
\<close>

datatype pyfloat = Finite rat | PosInf | NegInf | NaN

definition round_half_even :: "rat \<Rightarrow> int" where
  "round_half_even x =
     (let f = \<lfloor>x\<rfloor>; r = x - of_int f
      in if r < 1 / 2 then f else if 1 / 2 < r then f + 1
         else if even f then f else f + 1)"

text \<open>\<open>\<lfloor>log\<^sub>2 x\<rfloor>\<close> for a positive rational \<open>x\<close>, by integer bit lengths.\<close>

definition floor_log2 :: "rat \<Rightarrow> int" where
  "floor_log2 x =
     (if 1 \<le> x then bitlen \<lfloor>x\<rfloor> - 1 else - bitlen (\<lceil>1 / x\<rceil> - 1))"

definition round_binary64 :: "rat \<Rightarrow> rat" where
  "round_binary64 x =
     (if x = 0 then 0
      else let e = max (floor_log2 \<bar>x\<bar>) (- 1022) - 52
           in of_int (round_half_even (x / 2 powi e)) * 2 powi e)"

definition overflows :: "rat \<Rightarrow> bool" where
  "overflows r = (2 ^ 1024 \<le> \<bar>r\<bar>)"


text \<open>
  \<open>a / b\<close> on two \<open>int\<close>s: the correctly rounded quotient; it raises on a zero divisor
  and when the quotient is too large for a float.  \<open>x / y\<close> on two floats follows
  IEEE 754, except that a zero divisor raises.
\<close>

datatype py_error =
    External pystr
  | KeyError pystr
  | IndexError
  | ZeroDivisionError
  | OverflowError

definition py_int_truediv :: "int \<Rightarrow> int \<Rightarrow> py_error + pyfloat" where
  "py_int_truediv a b =
     (if b = 0 then Inl ZeroDivisionError
      else let r = round_binary64 (of_int a / of_int b)
           in if overflows r then Inl OverflowError else Inr (Finite r))"

fun py_float_truediv :: "pyfloat \<Rightarrow> pyfloat \<Rightarrow> py_error + pyfloat" where
  "py_float_truediv x (Finite y) =
     (if y = 0 then Inl ZeroDivisionError
      else Inr (case x of
                  Finite a \<Rightarrow>
                    (let r = round_binary64 (a / y)
                     in if overflows r then (if 0 < r then PosInf else NegInf) else Finite r)
                | PosInf \<Rightarrow> (if 0 < y then PosInf else NegInf)
                | NegInf \<Rightarrow> (if 0 < y then NegInf else PosInf)
                | NaN \<Rightarrow> NaN))"
| "py_float_truediv (Finite a) PosInf = Inr (Finite 0)"
| "py_float_truediv (Finite a) NegInf = Inr (Finite 0)"
| "py_float_truediv x y = Inr NaN"

section \<open>The OCR engine and the process state\<close>

text \<open>
  The engine (pytesseract) and numpy are outside the repository.  They are a parameter
  of the model: each call either raises (\<open>Inl\<close> with the message of the exception, an
  instance of \<open>Exception\<close>) or returns a value.  The answer of the engine may depend on
  how many invocations were made before (the last argument), so that an engine that
  answers differently from one call to the next is covered.

  \<open>image_to_data\<close> with \<open>Output.DICT\<close> returns a dictionary of columns; the code reads
  the columns \<open>'text'\<close> and \<open>'conf'\<close>, and a missing one is \<open>None\<close> here.
\<close>

datatype ('p, 'a) image = PilImage 'p | NotPil 'a

record ocr_data =
  text_col :: "pystr list option"
  conf_col :: "int list option"

record ('p, 'a) world =
  np_array :: "'p \<Rightarrow> pystr + 'a"
  image_to_string :: "'a \<Rightarrow> string \<Rightarrow> string \<Rightarrow> nat \<Rightarrow> pystr + pystr"
  image_to_data :: "'a \<Rightarrow> string \<Rightarrow> string \<Rightarrow> nat \<Rightarrow> pystr + ocr_data"

text \<open>
  The state a call changes: the engine invocations made so far, in order, each with its
  configuration and whether it returned or raised, and the lines printed.
\<close>

datatype outcome = Returned | Raised pystr

record state =
  invocations :: "(string \<times> outcome) list"
  stdout :: "pystr list"

definition str_of_error :: "py_error \<Rightarrow> pystr" where
  "str_of_error e =
     (case e of
        External m \<Rightarrow> m
      | KeyError k \<Rightarrow> lit [CHR 0x27] @ k @ lit [CHR 0x27]
      | IndexError \<Rightarrow> lit ''list index out of range''
      | ZeroDivisionError \<Rightarrow> lit ''division by zero''
      | OverflowError \<Rightarrow> lit ''integer division result too large for a float'')"

text \<open>The conversion at the head of every operation.\<close>

definition to_numpy :: "('p, 'a) world \<Rightarrow> ('p, 'a) image \<Rightarrow> py_error + 'a" where
  "to_numpy w img =
     (case img of
        PilImage p \<Rightarrow> (case np_array w p of Inl m \<Rightarrow> Inl (External m) | Inr a \<Rightarrow> Inr a)
      | NotPil a \<Rightarrow> Inr a)"

definition invoked :: "string \<Rightarrow> outcome \<Rightarrow> state \<Rightarrow> state" where
  "invoked config r s = s\<lparr>invocations := invocations s @ [(config, r)]\<rparr>"

definition call_image_to_string ::
  "('p, 'a) world \<Rightarrow> 'a \<Rightarrow> string \<Rightarrow> state \<Rightarrow> (py_error + pystr) \<times> state" where
  "call_image_to_string w a config s =
     (case image_to_string w a config ''eng'' (length (invocations s)) of
        Inl m \<Rightarrow> (Inl (External m), invoked config (Raised m) s)
      | Inr t \<Rightarrow> (Inr t, invoked config Returned s))"

definition call_image_to_data ::
  "('p, 'a) world \<Rightarrow> 'a \<Rightarrow> string \<Rightarrow> state \<Rightarrow> (py_error + ocr_data) \<times> state" where
  "call_image_to_data w a config s =
     (case image_to_data w a config ''eng'' (length (invocations s)) of
        Inl m \<Rightarrow> (Inl (External m), invoked config (Raised m) s)
      | Inr d \<Rightarrow> (Inr d, invoked config Returned s))"

text \<open>
  \<open>except Exception as e: print(f"<prefix>{e}"); return <sentinel>\<close> around a body.
  The \<open>print\<close> is taken to succeed.
\<close>

definition except_warning ::
  "string \<Rightarrow> 'r \<Rightarrow> (py_error + 'r) \<times> state \<Rightarrow> 'r \<times> state" where
  "except_warning prefix sentinel out =
     (case out of
        (Inr v, s) \<Rightarrow> (v, s)
      | (Inl e, s) \<Rightarrow> (sentinel, s\<lparr>stdout := stdout s @ [lit prefix @ str_of_error e]\<rparr>))"


section \<open>The extractor operations\<close>

subsection \<open>Configurations\<close>

definition text_config :: string where
  "text_config = ''--oem 3 --psm 6 -c tessedit_char_whitelist=ABCDEFGHIJKLMNOPQRSTUVWXYZabcdefghijklmnopqrstuvwxyz0123456789%().- ''"

definition number_config :: string where
  "number_config = ''--oem 3 --psm 7 -c tessedit_char_whitelist=0123456789 ''"

definition turn_configs :: "string list" where
  "turn_configs =
     [''--oem 3 --psm 8 -c tessedit_char_whitelist=0123456789'',
      ''--oem 3 --psm 7 -c tessedit_char_whitelist=0123456789'',
      ''--oem 3 --psm 6 -c tessedit_char_whitelist=0123456789'']"

definition mood_configs :: "string list" where
  "mood_configs =
     [''--oem 3 --psm 8 -c tessedit_char_whitelist=ABCDEFGHIJKLMNOPQRSTUVWXYZabcdefghijklmnopqrstuvwxyz'',
      ''--oem 3 --psm 7 -c tessedit_char_whitelist=ABCDEFGHIJKLMNOPQRSTUVWXYZabcdefghijklmnopqrstuvwxyz'',
      ''--oem 3 --psm 6 -c tessedit_char_whitelist=ABCDEFGHIJKLMNOPQRSTUVWXYZabcdefghijklmnopqrstuvwxyz'']"

definition failure_configs :: "string list" where
  "failure_configs =
     [''--oem 3 --psm 6 -c tessedit_char_whitelist=ABCDEFGHIJKLMNOPQRSTUVWXYZabcdefghijklmnopqrstuvwxyz0123456789%(). '',
      ''--oem 3 --psm 7 -c tessedit_char_whitelist=ABCDEFGHIJKLMNOPQRSTUVWXYZabcdefghijklmnopqrstuvwxyz0123456789%(). '',
      ''--oem 3 --psm 8 -c tessedit_char_whitelist=ABCDEFGHIJKLMNOPQRSTUVWXYZabcdefghijklmnopqrstuvwxyz0123456789%(). '',
      ''--oem 3 --psm 13 -c tessedit_char_whitelist=ABCDEFGHIJKLMNOPQRSTUVWXYZabcdefghijklmnopqrstuvwxyz0123456789%(). '']"

definition confidence_config :: string where
  "confidence_config = ''--oem 3 --psm 6 -c tessedit_char_whitelist=ABCDEFGHIJKLMNOPQRSTUVWXYZabcdefghijklmnopqrstuvwxyz0123456789%(). ''"

subsection \<open>The two loops over a list of configurations\<close>

text \<open>
  \<open>for config in configs: text = image_to_string(...); text = text.strip();
  if text and text.isdigit(): return text\<close>.
  The result \<open>Inr None\<close> is a loop that ran to its end without returning.
\<close>

fun loop_digits ::
  "('p, 'a) world \<Rightarrow> 'a \<Rightarrow> string list \<Rightarrow> state \<Rightarrow> (py_error + pystr option) \<times> state" where
  "loop_digits w a [] s = (Inr None, s)"
| "loop_digits w a (config # configs) s =
     (case call_image_to_string w a config s of
        (Inl e, s') \<Rightarrow> (Inl e, s')
      | (Inr t, s') \<Rightarrow>
          (let text = py_strip t
           in if truthy text \<and> py_isdigit text then (Inr (Some text), s')
              else loop_digits w a configs s'))"

text \<open>
  \<open>for config in configs: text = image_to_string(...); text = text.strip();
  if text: return text\<close>.
\<close>

fun loop_nonempty ::
  "('p, 'a) world \<Rightarrow> 'a \<Rightarrow> string list \<Rightarrow> state \<Rightarrow> (py_error + pystr option) \<times> state" where
  "loop_nonempty w a [] s = (Inr None, s)"
| "loop_nonempty w a (config # configs) s =
     (case call_image_to_string w a config s of
        (Inl e, s') \<Rightarrow> (Inl e, s')
      | (Inr t, s') \<Rightarrow>
          (let text = py_strip t
           in if truthy text then (Inr (Some text), s')
              else loop_nonempty w a configs s'))"

subsection \<open>extract_text, extract_number\<close>

definition extract_text_body ::
  "('p, 'a) world \<Rightarrow> ('p, 'a) image \<Rightarrow> state \<Rightarrow> (py_error + pystr) \<times> state" where
  "extract_text_body w img s =
     (case to_numpy w img of
        Inl e \<Rightarrow> (Inl e, s)
      | Inr a \<Rightarrow>
          (case call_image_to_string w a text_config s of
             (Inl e, s') \<Rightarrow> (Inl e, s')
           | (Inr text, s') \<Rightarrow> (Inr (py_strip text), s')))"

definition extract_text ::
  "('p, 'a) world \<Rightarrow> ('p, 'a) image \<Rightarrow> state \<Rightarrow> pystr \<times> state" where
  "extract_text w img s =
     except_warning ''[WARNING] OCR extraction failed: '' [] (extract_text_body w img s)"

definition extract_number_body ::
  "('p, 'a) world \<Rightarrow> ('p, 'a) image \<Rightarrow> state \<Rightarrow> (py_error + pystr) \<times> state" where
  "extract_number_body w img s =
     (case to_numpy w img of
        Inl e \<Rightarrow> (Inl e, s)
      | Inr a \<Rightarrow>
          (case call_image_to_string w a number_config s of
             (Inl e, s') \<Rightarrow> (Inl e, s')
           | (Inr text, s') \<Rightarrow> (Inr (py_strip text), s')))"

definition extract_number ::
  "('p, 'a) world \<Rightarrow> ('p, 'a) image \<Rightarrow> state \<Rightarrow> pystr \<times> state" where
  "extract_number w img s =
     except_warning ''[WARNING] Number extraction failed: '' [] (extract_number_body w img s)"

subsection \<open>extract_turn_number\<close>

definition extract_turn_number_body ::
  "('p, 'a) world \<Rightarrow> ('p, 'a) image \<Rightarrow> state \<Rightarrow> (py_error + pystr) \<times> state" where
  "extract_turn_number_body w img s =
     (case to_numpy w img of
        Inl e \<Rightarrow> (Inl e, s)
      | Inr a \<Rightarrow>
          (case loop_digits w a turn_configs s of
             (Inl e, s1) \<Rightarrow> (Inl e, s1)
           | (Inr (Some text), s1) \<Rightarrow> (Inr text, s1)
           | (Inr None, s1) \<Rightarrow>
               (case loop_nonempty w a turn_configs s1 of
                  (Inl e, s2) \<Rightarrow> (Inl e, s2)
                | (Inr (Some text), s2) \<Rightarrow> (Inr text, s2)
                | (Inr None, s2) \<Rightarrow> (Inr [], s2))))"

definition extract_turn_number ::
  "('p, 'a) world \<Rightarrow> ('p, 'a) image \<Rightarrow> state \<Rightarrow> pystr \<times> state" where
  "extract_turn_number w img s =
     except_warning ''[WARNING] Turn number extraction failed: '' []
       (extract_turn_number_body w img s)"

subsection \<open>extract_mood_text, extract_failure_text\<close>

definition extract_mood_text_body ::
  "('p, 'a) world \<Rightarrow> ('p, 'a) image \<Rightarrow> state \<Rightarrow> (py_error + pystr) \<times> state" where
  "extract_mood_text_body w img s =
     (case to_numpy w img of
        Inl e \<Rightarrow> (Inl e, s)
      | Inr a \<Rightarrow>
          (case loop_nonempty w a mood_configs s of
             (Inl e, s1) \<Rightarrow> (Inl e, s1)
           | (Inr (Some text), s1) \<Rightarrow> (Inr text, s1)
           | (Inr None, s1) \<Rightarrow> (Inr [], s1)))"

definition extract_mood_text ::
  "('p, 'a) world \<Rightarrow> ('p, 'a) image \<Rightarrow> state \<Rightarrow> pystr \<times> state" where
  "extract_mood_text w img s =
     except_warning ''[WARNING] Mood text extraction failed: '' []
       (extract_mood_text_body w img s)"

definition extract_failure_text_body ::
  "('p, 'a) world \<Rightarrow> ('p, 'a) image \<Rightarrow> state \<Rightarrow> (py_error + pystr) \<times> state" where
  "extract_failure_text_body w img s =
     (case to_numpy w img of
        Inl e \<Rightarrow> (Inl e, s)
      | Inr a \<Rightarrow>
          (case loop_nonempty w a failure_configs s of
             (Inl e, s1) \<Rightarrow> (Inl e, s1)
           | (Inr (Some text), s1) \<Rightarrow> (Inr text, s1)
           | (Inr None, s1) \<Rightarrow> (Inr [], s1)))"

definition extract_failure_text ::
  "('p, 'a) world \<Rightarrow> ('p, 'a) image \<Rightarrow> state \<Rightarrow> pystr \<times> state" where
  "extract_failure_text w img s =
     except_warning ''[WARNING] Failure text extraction failed: '' []
       (extract_failure_text_body w img s)"

subsection \<open>extract_failure_text_with_confidence\<close>

text \<open>
  \<open>for i, text in enumerate(ocr_data['text']): if text.strip(): text_parts.append(text);
  confidences.append(ocr_data['conf'][i])\<close>, from index \<open>i\<close> on, with the two lists
  built so far.
\<close>

fun collect_tokens ::
  "ocr_data \<Rightarrow> pystr list \<Rightarrow> nat \<Rightarrow> pystr list \<Rightarrow> int list
     \<Rightarrow> py_error + (pystr list \<times> int list)" where
  "collect_tokens d [] i text_parts confidences = Inr (text_parts, confidences)"
| "collect_tokens d (text # rest) i text_parts confidences =
     (if truthy (py_strip text) then
        (case conf_col d of
           None \<Rightarrow> Inl (KeyError (lit ''conf''))
         | Some cs \<Rightarrow>
             if i < length cs
             then collect_tokens d rest (Suc i) (text_parts @ [text]) (confidences @ [cs ! i])
             else Inl IndexError)
      else collect_tokens d rest (Suc i) text_parts confidences)"

definition score_tokens :: "ocr_data \<Rightarrow> py_error + (pystr \<times> pyfloat)" where
  "score_tokens d =
     (case text_col d of
        None \<Rightarrow> Inl (KeyError (lit ''text''))
      | Some texts \<Rightarrow>
          (case collect_tokens d texts 0 [] [] of
             Inl e \<Rightarrow> Inl e
           | Inr (text_parts, confidences) \<Rightarrow>
               if text_parts \<noteq> [] then
                 (let full_text = py_strip (py_join (lit '' '') text_parts)
                  in case py_int_truediv (sum_list confidences) (int (length confidences)) of
                       Inl e \<Rightarrow> Inl e
                     | Inr mean \<Rightarrow>
                         (case py_float_truediv mean (Finite 100) of
                            Inl e \<Rightarrow> Inl e
                          | Inr avg_confidence \<Rightarrow> Inr (full_text, avg_confidence)))
               else Inr ([], Finite 0)))"

definition extract_failure_text_with_confidence_body ::
  "('p, 'a) world \<Rightarrow> ('p, 'a) image \<Rightarrow> state \<Rightarrow> (py_error + (pystr \<times> pyfloat)) \<times> state" where
  "extract_failure_text_with_confidence_body w img s =
     (case to_numpy w img of
        Inl e \<Rightarrow> (Inl e, s)
      | Inr a \<Rightarrow>
          (case call_image_to_data w a confidence_config s of
             (Inl e, s') \<Rightarrow> (Inl e, s')
           | (Inr d, s') \<Rightarrow> (score_tokens d, s')))"

definition extract_failure_text_with_confidence ::
  "('p, 'a) world \<Rightarrow> ('p, 'a) image \<Rightarrow> state \<Rightarrow> (pystr \<times> pyfloat) \<times> state" where
  "extract_failure_text_with_confidence w img s =
     except_warning ''[WARNING] Failure text extraction with confidence failed: ''
       ([], Finite 0) (extract_failure_text_with_confidence_body w img s)"


section \<open>Vocabulary of the properties\<close>

text \<open>
  A configuration string is an engine mode, a page segmentation mode and a whitelist.
\<close>

definition profile :: "string \<Rightarrow> string \<Rightarrow> string" where
  "profile psm whitelist = ''--oem 3 --psm '' @ psm @ '' -c tessedit_char_whitelist='' @ whitelist"

definition failure_whitelist :: string where
  "failure_whitelist = ''ABCDEFGHIJKLMNOPQRSTUVWXYZabcdefghijklmnopqrstuvwxyz0123456789%(). ''"

text \<open>
  The answer of the engine to the \<open>j\<close>-th configuration of a list when it is the
  \<open>(n + j)\<close>-th invocation: what a loop over the list sees at its \<open>j\<close>-th iteration
  when it starts after \<open>n\<close> invocations.
\<close>

definition reply :: "('p, 'a) world \<Rightarrow> 'a \<Rightarrow> string list \<Rightarrow> nat \<Rightarrow> nat \<Rightarrow> pystr + pystr" where
  "reply w a configs n j = image_to_string w a (configs ! j) ''eng'' (n + j)"

text \<open>The invocations a call added, how many they are, and whether one of them raised.\<close>

definition new_invocations :: "state \<Rightarrow> state \<Rightarrow> (string \<times> outcome) list" where
  "new_invocations s s' = drop (length (invocations s)) (invocations s')"

definition engine_calls :: "state \<Rightarrow> state \<Rightarrow> nat" where
  "engine_calls s s' = length (new_invocations s s')"

definition engine_raised :: "state \<Rightarrow> state \<Rightarrow> bool" where
  "engine_raised s s' = list_ex (\<lambda>(config, r). r \<noteq> Returned) (new_invocations s s')"

text \<open>
  The two loops are instances of one loop with an acceptance test; the lemmas about
  them are proved once, on this one.
\<close>

fun loop_until ::
  "(pystr \<Rightarrow> bool) \<Rightarrow> ('p, 'a) world \<Rightarrow> 'a \<Rightarrow> string list \<Rightarrow> state
     \<Rightarrow> (py_error + pystr option) \<times> state" where
  "loop_until accept w a [] s = (Inr None, s)"
| "loop_until accept w a (config # configs) s =
     (case call_image_to_string w a config s of
        (Inl e, s') \<Rightarrow> (Inl e, s')
      | (Inr t, s') \<Rightarrow>
          (if accept (py_strip t) then (Inr (Some (py_strip t)), s')
           else loop_until accept w a configs s'))"

text \<open>
  The token list of the engine as the dictionary \<open>image_to_data\<close> returns, and the tokens
  the code keeps.
\<close>

definition token_data :: "(pystr \<times> int) list \<Rightarrow> ocr_data" where
  "token_data tokens = \<lparr>text_col = Some (map fst tokens), conf_col = Some (map snd tokens)\<rparr>"

definition kept_tokens :: "(pystr \<times> int) list \<Rightarrow> (pystr \<times> int) list" where
  "kept_tokens tokens = filter (\<lambda>(text, conf). py_strip text \<noteq> []) tokens"

text \<open>
  An engine whose answer depends on the image and the configuration only, not on the
  invocations made before.
\<close>

definition deterministic :: "('p, 'a) world \<Rightarrow> bool" where
  "deterministic w = (\<forall>a config lang n. image_to_string w a config lang n = image_to_string w a config lang 0)"

text \<open>
  The single-pass variant of \<open>extract_turn_number\<close>: it records the trimmed output of
  each profile, returns at the first one that is non-empty and all digits, and
  otherwise falls back to the first recorded non-empty output.
\<close>

fun single_pass_loop ::
  "('p, 'a) world \<Rightarrow> 'a \<Rightarrow> string list \<Rightarrow> pystr list \<Rightarrow> state \<Rightarrow> (py_error + pystr) \<times> state" where
  "single_pass_loop w a [] recorded s =
     (Inr (case find truthy recorded of Some text \<Rightarrow> text | None \<Rightarrow> []), s)"
| "single_pass_loop w a (config # configs) recorded s =
     (case call_image_to_string w a config s of
        (Inl e, s') \<Rightarrow> (Inl e, s')
      | (Inr t, s') \<Rightarrow>
          (let text = py_strip t
           in if truthy text \<and> py_isdigit text then (Inr text, s')
              else single_pass_loop w a configs (recorded @ [text]) s'))"

definition extract_turn_number_single_pass ::
  "('p, 'a) world \<Rightarrow> ('p, 'a) image \<Rightarrow> state \<Rightarrow> pystr \<times> state" where
  "extract_turn_number_single_pass w img s =
     except_warning ''[WARNING] Turn number extraction failed: '' []
       (case to_numpy w img of
          Inl e \<Rightarrow> (Inl e, s)
        | Inr a \<Rightarrow> single_pass_loop w a turn_configs [] s)"

text \<open>The invocations of a run in which every configuration of a list was answered.\<close>

definition returned :: "string list \<Rightarrow> (string \<times> outcome) list" where
  "returned configs = map (\<lambda>config. (config, Returned)) configs"

text \<open>
  The shape shared by the bodies: the invocations grow by at most \<open>bound\<close> entries,
  nothing is printed, and a body that returns a value made only invocations that
  returned, and its value satisfies \<open>good\<close>.
\<close>

definition runs ::
  "nat \<Rightarrow> ('r \<Rightarrow> bool) \<Rightarrow> state \<Rightarrow> (py_error + 'r) \<times> state \<Rightarrow> bool" where
  "runs bound good s out =
     (\<exists>new. invocations (snd out) = invocations s @ new \<and> length new \<le> bound
        \<and> stdout (snd out) = stdout s
        \<and> (\<forall>v. fst out = Inr v \<longrightarrow> good v \<and> list_all (\<lambda>(config, r). r = Returned) new))"

text \<open>The exact arithmetic mean of a list of confidences.\<close>

definition mean_of :: "int list \<Rightarrow> rat" where
  "mean_of cs = of_int (sum_list cs) / of_int (int (length cs))"

subsection \<open>Scripted engines\<close>

text \<open>
  Test doubles for the engine: the text answer is a function of the configuration and
  of the number of earlier invocations, the token answer is fixed.
\<close>

definition scripted ::
  "(string \<Rightarrow> nat \<Rightarrow> pystr + pystr) \<Rightarrow> (pystr + ocr_data) \<Rightarrow> (unit, unit) world" where
  "scripted text_answer data_answer =
     \<lparr>np_array = (\<lambda>p. Inr ()),
      image_to_string = (\<lambda>a config lang n. text_answer config n),
      image_to_data = (\<lambda>a config lang n. data_answer)\<rparr>"

definition start :: state where
  "start = \<lparr>invocations = [], stdout = []\<rparr>"

definition engine_down :: "pystr + 'r" where
  "engine_down = Inl (lit ''tesseract is not installed or it is not in your PATH'')"

text \<open>An engine that reads \<open>12O\<close> in single-word mode and \<open>45\<close> in any other.\<close>

definition reads_12O_then_45 :: "string \<Rightarrow> nat \<Rightarrow> pystr + pystr" where
  "reads_12O_then_45 config n =
     (if config = profile ''8'' ''0123456789'' then Inr (lit ''12O\<newline>'')
      else Inr (lit ''45\<newline>''))"

text \<open>An engine that reads nothing in uniform-block mode and \<open>12%\<close> in any other.\<close>

definition reads_blank_then_12pct :: "string \<Rightarrow> nat \<Rightarrow> pystr + pystr" where
  "reads_blank_then_12pct config n =
     (if config = profile ''6'' failure_whitelist then Inr (lit '' \<newline>'')
      else Inr (lit '' 12% \<newline>''))"

text \<open>An engine that finds no text at all, and one that raises from its \<open>k\<close>-th invocation on.\<close>

definition reads_nothing :: "string \<Rightarrow> nat \<Rightarrow> pystr + pystr" where
  "reads_nothing config n = Inr []"


text \<open>An engine that reads \<open>12O\<close> whatever the configuration, and one that reads a superscript two.\<close>

definition reads_12O :: "string \<Rightarrow> nat \<Rightarrow> pystr + pystr" where
  "reads_12O config n = Inr (lit ''12O\<newline>'')"

definition reads_superscript_two :: "string \<Rightarrow> nat \<Rightarrow> pystr + pystr" where
  "reads_superscript_two config n = Inr [178, 10]"

text \<open>The token list \<open>[("12", 90), ("", 0), ("%", 80)]\<close>.\<close>

definition example_tokens :: "(pystr \<times> int) list" where
  "example_tokens = [(lit ''12'', 90), ([], 0), (lit ''%'', 80)]"

section \<open>Basic facts\<close>

subsection \<open>Strings\<close>

lemma py_rstrip_prefix: "\<exists>v. s = py_rstrip s @ v"
proof -
  have "rev (takeWhile isspace_cp (rev s) @ dropWhile isspace_cp (rev s)) = s"
    by (simp only: takeWhile_dropWhile_id rev_rev_ident)
  then have "s = py_rstrip s @ rev (takeWhile isspace_cp (rev s))"
    by (simp only: py_rstrip_def rev_append)
  then show ?thesis ..
qed

lemma py_rstrip_last: "py_rstrip s \<noteq> [] \<Longrightarrow> \<not> isspace_cp (last (py_rstrip s))"
  by (simp add: py_rstrip_def last_rev hd_dropWhile)

lemma py_lstrip_hd: "py_lstrip s \<noteq> [] \<Longrightarrow> \<not> isspace_cp (hd (py_lstrip s))"
  by (simp add: py_lstrip_def hd_dropWhile)

lemma trimmed_py_strip: "trimmed (py_strip s)"
proof (cases "py_strip s = []")
  case True
  then show ?thesis by (simp add: trimmed_def)
next
  case False
  obtain v where v: "py_lstrip s = py_strip s @ v"
    using py_rstrip_prefix [of "py_lstrip s"] by (auto simp: py_strip_def)
  with False have "hd (py_strip s) = hd (py_lstrip s)" by (metis hd_append2)
  moreover from v False have "py_lstrip s \<noteq> []" by auto
  ultimately have "\<not> isspace_cp (hd (py_strip s))" using py_lstrip_hd by simp
  moreover have "\<not> isspace_cp (last (py_strip s))"
    using False py_rstrip_last [of "py_lstrip s"] by (simp add: py_strip_def)
  ultimately show ?thesis by (simp add: trimmed_def)
qed

lemma trimmed_Nil: "trimmed []"
  by (simp add: trimmed_def)

subsection \<open>The loops\<close>

lemma loop_digits_until:
  "loop_digits w a configs s = loop_until (\<lambda>text. truthy text \<and> py_isdigit text) w a configs s"
  by (induction configs arbitrary: s)
     (auto simp: Let_def split: prod.splits sum.splits)

lemma loop_nonempty_until:
  "loop_nonempty w a configs s = loop_until truthy w a configs s"
  by (induction configs arbitrary: s)
     (auto simp: Let_def split: prod.splits sum.splits)

lemma call_image_to_string_Inr:
  "image_to_string w a config ''eng'' (length (invocations s)) = Inr t \<Longrightarrow>
   call_image_to_string w a config s = (Inr t, invoked config Returned s)"
  by (simp add: call_image_to_string_def)

lemma call_image_to_string_Inl:
  "image_to_string w a config ''eng'' (length (invocations s)) = Inl m \<Longrightarrow>
   call_image_to_string w a config s = (Inl (External m), invoked config (Raised m) s)"
  by (simp add: call_image_to_string_def)

lemma invoked_simps [simp]:
  "invocations (invoked config r s) = invocations s @ [(config, r)]"
  "stdout (invoked config r s) = stdout s"
  by (simp_all add: invoked_def)

lemma loop_until_hit:
  assumes "i < length configs"
    and "\<forall>j<i. \<exists>t. reply w a configs (length (invocations s)) j = Inr t \<and> \<not> accept (py_strip t)"
    and "reply w a configs (length (invocations s)) i = Inr t"
    and "accept (py_strip t)"
  shows "loop_until accept w a configs s =
           (Inr (Some (py_strip t)),
            s\<lparr>invocations := invocations s @ returned (take (Suc i) configs)\<rparr>)"
  using assms
proof (induction configs arbitrary: i s)
  case Nil
  then show ?case by simp
next
  case (Cons config configs)
  show ?case
  proof (cases i)
    case 0
    with Cons.prems show ?thesis
      by (simp add: reply_def call_image_to_string_Inr returned_def invoked_def)
  next
    case (Suc k)
    from Cons.prems(2) Suc obtain t0 where
      t0: "reply w a (config # configs) (length (invocations s)) 0 = Inr t0"
          "\<not> accept (py_strip t0)"
      by auto
    let ?s' = "invoked config Returned s"
    have call: "call_image_to_string w a config s = (Inr t0, ?s')"
      using t0(1) by (simp add: reply_def call_image_to_string_Inr)
    have shift: "reply w a configs (Suc n) j = reply w a (config # configs) n (Suc j)" for j n
      by (simp add: reply_def)
    have "loop_until accept w a configs ?s' =
            (Inr (Some (py_strip t)),
             ?s'\<lparr>invocations := invocations ?s' @ returned (take (Suc k) configs)\<rparr>)"
    proof (rule Cons.IH)
      show "k < length configs" using Cons.prems(1) Suc by simp
      show "\<forall>j<k. \<exists>t. reply w a configs (length (invocations ?s')) j = Inr t \<and> \<not> accept (py_strip t)"
        using Cons.prems(2) Suc by (simp add: shift)
      show "reply w a configs (length (invocations ?s')) k = Inr t"
        using Cons.prems(3) Suc by (simp add: shift)
      show "accept (py_strip t)" by (rule Cons.prems(4))
    qed
    with call t0(2) Suc show ?thesis
      by (simp add: returned_def invoked_def)
  qed
qed


lemma loop_until_miss:
  assumes "\<forall>j<length configs. \<exists>t. reply w a configs (length (invocations s)) j = Inr t \<and> \<not> accept (py_strip t)"
  shows "loop_until accept w a configs s =
           (Inr None, s\<lparr>invocations := invocations s @ returned configs\<rparr>)"
  using assms
proof (induction configs arbitrary: s)
  case Nil
  then show ?case by (simp add: returned_def)
next
  case (Cons config configs)
  from Cons.prems obtain t0 where
    t0: "reply w a (config # configs) (length (invocations s)) 0 = Inr t0"
        "\<not> accept (py_strip t0)"
    by auto
  let ?s' = "invoked config Returned s"
  have call: "call_image_to_string w a config s = (Inr t0, ?s')"
    using t0(1) by (simp add: reply_def call_image_to_string_Inr)
  have shift: "reply w a configs (Suc n) j = reply w a (config # configs) n (Suc j)" for j n
    by (simp add: reply_def)
  have "loop_until accept w a configs ?s' =
          (Inr None, ?s'\<lparr>invocations := invocations ?s' @ returned configs\<rparr>)"
  proof (rule Cons.IH)
    show "\<forall>j<length configs. \<exists>t. reply w a configs (length (invocations ?s')) j = Inr t \<and> \<not> accept (py_strip t)"
      using Cons.prems by (simp add: shift)
  qed
  with call t0(2) show ?case
    by (simp add: returned_def invoked_def)
qed

lemma loop_until_raise:
  assumes "i < length configs"
    and "\<forall>j<i. \<exists>t. reply w a configs (length (invocations s)) j = Inr t \<and> \<not> accept (py_strip t)"
    and "reply w a configs (length (invocations s)) i = Inl m"
  shows "loop_until accept w a configs s =
           (Inl (External m),
            s\<lparr>invocations := invocations s @ returned (take i configs) @ [(configs ! i, Raised m)]\<rparr>)"
  using assms
proof (induction configs arbitrary: i s)
  case Nil
  then show ?case by simp
next
  case (Cons config configs)
  show ?case
  proof (cases i)
    case 0
    with Cons.prems show ?thesis
      by (simp add: reply_def call_image_to_string_Inl returned_def invoked_def)
  next
    case (Suc k)
    from Cons.prems(2) Suc obtain t0 where
      t0: "reply w a (config # configs) (length (invocations s)) 0 = Inr t0"
          "\<not> accept (py_strip t0)"
      by auto
    let ?s' = "invoked config Returned s"
    have call: "call_image_to_string w a config s = (Inr t0, ?s')"
      using t0(1) by (simp add: reply_def call_image_to_string_Inr)
    have shift: "reply w a configs (Suc n) j = reply w a (config # configs) n (Suc j)" for j n
      by (simp add: reply_def)
    have "loop_until accept w a configs ?s' =
            (Inl (External m),
             ?s'\<lparr>invocations := invocations ?s' @ returned (take k configs) @ [(configs ! k, Raised m)]\<rparr>)"
    proof (rule Cons.IH)
      show "k < length configs" using Cons.prems(1) Suc by simp
      show "\<forall>j<k. \<exists>t. reply w a configs (length (invocations ?s')) j = Inr t \<and> \<not> accept (py_strip t)"
        using Cons.prems(2) Suc by (simp add: shift)
      show "reply w a configs (length (invocations ?s')) k = Inl m"
        using Cons.prems(3) Suc by (simp add: shift)
    qed
    with call t0(2) Suc show ?thesis
      by (simp add: returned_def invoked_def)
  qed
qed

text \<open>What every run of the loop guarantees.\<close>

lemma loop_until_run:
  assumes "loop_until accept w a configs s = (r, s')"
  shows "\<exists>new. invocations s' = invocations s @ new \<and> length new \<le> length configs
           \<and> stdout s' = stdout s
           \<and> (case r of
                 Inl e \<Rightarrow> True
               | Inr None \<Rightarrow> new = returned configs
               | Inr (Some t) \<Rightarrow> accept t \<and> trimmed t \<and> list_all (\<lambda>(c, r). r = Returned) new)"
  using assms
proof (induction configs arbitrary: s)
  case Nil
  then show ?case by (auto simp: returned_def)
next
  case (Cons config configs)
  show ?case
  proof (cases "image_to_string w a config ''eng'' (length (invocations s))")
    case (Inl m)
    with Cons.prems show ?thesis
      by (auto simp: call_image_to_string_Inl)
  next
    case (Inr t)
    let ?s' = "invoked config Returned s"
    show ?thesis
    proof (cases "accept (py_strip t)")
      case True
      with Inr Cons.prems show ?thesis
        by (auto simp: call_image_to_string_Inr trimmed_py_strip)
    next
      case False
      with Inr Cons.prems have "loop_until accept w a configs ?s' = (r, s')"
        by (simp add: call_image_to_string_Inr)
      from Cons.IH [OF this] obtain new where
        new: "invocations s' = invocations ?s' @ new" "length new \<le> length configs"
          "stdout s' = stdout ?s'"
          "case r of Inl e \<Rightarrow> True | Inr None \<Rightarrow> new = returned configs
           | Inr (Some t) \<Rightarrow> accept t \<and> trimmed t \<and> list_all (\<lambda>(c, r). r = Returned) new"
        by blast
      show ?thesis
      proof (intro exI conjI)
        show "invocations s' = invocations s @ ((config, Returned) # new)"
          using new(1) by simp
        show "length ((config, Returned) # new) \<le> length (config # configs)"
          using new(2) by simp
        show "stdout s' = stdout s" using new(3) by simp
        show "case r of Inl e \<Rightarrow> True | Inr None \<Rightarrow> (config, Returned) # new = returned (config # configs)
           | Inr (Some t) \<Rightarrow> accept t \<and> trimmed t \<and> list_all (\<lambda>(c, r). r = Returned) ((config, Returned) # new)"
          using new(4) by (auto simp: returned_def split: sum.splits option.splits)
      qed
    qed
  qed
qed

subsection \<open>Configurations, handlers, scripted engines\<close>

lemma failure_configs_profiles:
  "failure_configs = map (\<lambda>psm. profile psm failure_whitelist) [''6'', ''7'', ''8'', ''13'']"
  by (simp add: failure_configs_def profile_def failure_whitelist_def)

lemma length_failure_configs: "length failure_configs = 4"
  by (simp add: failure_configs_profiles)

lemma except_warning_Inr [simp]: "except_warning prefix sentinel (Inr v, s) = (v, s)"
  by (simp add: except_warning_def)

lemma except_warning_Inl:
  "except_warning prefix sentinel (Inl e, s) =
     (sentinel, s\<lparr>stdout := stdout s @ [lit prefix @ str_of_error e]\<rparr>)"
  by (simp add: except_warning_def)

section \<open>extract_failure_text: four profiles, first non-empty result\<close>

text \<open>
  C7.  \<open>extract_failure_text\<close> has exactly four profiles, all with the whitelist of
  letters, digits, \<open>%().\<close> and space, in the order uniform block (6), single line (7),
  single word (8), raw line (13).  When the conversion of the image succeeds, the
  first \<open>i\<close> profiles are answered with text that is empty once trimmed and profile
  \<open>i\<close> with text that is not, the operation returns that trimmed text, having invoked
  the engine with the profiles up to \<open>i\<close> and no other; when all four are answered with
  text that is empty once trimmed, it returns the empty string.
\<close>

theorem extract_failure_text_first_nonempty:
  "failure_configs = map (\<lambda>psm. profile psm failure_whitelist) [''6'', ''7'', ''8'', ''13'']
   \<and> (\<forall>i t. to_numpy w img = Inr a \<and> i < 4
          \<and> (\<forall>j<i. \<exists>u. reply w a failure_configs (length (invocations s)) j = Inr u
                        \<and> py_strip u = [])
          \<and> reply w a failure_configs (length (invocations s)) i = Inr t
          \<and> py_strip t \<noteq> []
        \<longrightarrow> extract_failure_text w img s =
              (py_strip t, s\<lparr>invocations := invocations s @ returned (take (Suc i) failure_configs)\<rparr>))
   \<and> (to_numpy w img = Inr a
          \<and> (\<forall>j<4. \<exists>u. reply w a failure_configs (length (invocations s)) j = Inr u
                        \<and> py_strip u = [])
        \<longrightarrow> extract_failure_text w img s =
              ([], s\<lparr>invocations := invocations s @ returned failure_configs\<rparr>))"
proof (intro conjI allI impI)
  show "failure_configs = map (\<lambda>psm. profile psm failure_whitelist) [''6'', ''7'', ''8'', ''13'']"
    by (rule failure_configs_profiles)
next
  fix i t
  assume h: "to_numpy w img = Inr a \<and> i < 4
          \<and> (\<forall>j<i. \<exists>u. reply w a failure_configs (length (invocations s)) j = Inr u
                        \<and> py_strip u = [])
          \<and> reply w a failure_configs (length (invocations s)) i = Inr t
          \<and> py_strip t \<noteq> []"
  then have "loop_until truthy w a failure_configs s =
           (Inr (Some (py_strip t)),
            s\<lparr>invocations := invocations s @ returned (take (Suc i) failure_configs)\<rparr>)"
    by (intro loop_until_hit) (simp_all add: length_failure_configs truthy_def)
  with h show "extract_failure_text w img s =
              (py_strip t, s\<lparr>invocations := invocations s @ returned (take (Suc i) failure_configs)\<rparr>)"
    by (simp add: extract_failure_text_def extract_failure_text_body_def loop_nonempty_until)
next
  assume h: "to_numpy w img = Inr a
          \<and> (\<forall>j<4. \<exists>u. reply w a failure_configs (length (invocations s)) j = Inr u
                        \<and> py_strip u = [])"
  then have "loop_until truthy w a failure_configs s =
           (Inr None, s\<lparr>invocations := invocations s @ returned failure_configs\<rparr>)"
    by (intro loop_until_miss) (simp_all add: length_failure_configs truthy_def)
  with h show "extract_failure_text w img s =
              ([], s\<lparr>invocations := invocations s @ returned failure_configs\<rparr>)"
    by (simp add: extract_failure_text_def extract_failure_text_body_def loop_nonempty_until)
qed

text \<open>
  An instance: the uniform-block profile reads only white space, the single-line
  profile reads \<open>12%\<close> between spaces; the result is \<open>12%\<close> after two invocations.
\<close>

lemma to_numpy_scripted [simp]: "to_numpy (scripted f d) img = Inr ()"
  by (cases img) (simp_all add: to_numpy_def scripted_def)

lemma reply_scripted [simp]: "reply (scripted f d) a configs n j = f (configs ! j) (n + j)"
  by (simp add: reply_def scripted_def)

lemma isspace_cp_simps [simp]:
  "isspace_cp 32" "isspace_cp 10" "\<not> isspace_cp 37" 
  by (simp_all add: isspace_cp_def in_ranges_def whitespace_ranges_def)

theorem extract_failure_text_first_nonempty_witness:
  "extract_failure_text (scripted reads_blank_then_12pct engine_down) (PilImage ()) start =
     (lit ''12%'', \<lparr>invocations = returned (take 2 failure_configs), stdout = []\<rparr>)"
proof -
  let ?w = "scripted reads_blank_then_12pct engine_down"
  have c0: "failure_configs ! 0 = profile ''6'' failure_whitelist"
    and c1: "failure_configs ! Suc 0 \<noteq> profile ''6'' failure_whitelist"
    by (simp_all add: failure_configs_profiles profile_def)
  have blank: "py_strip (lit '' \<newline>'') = []"
    by (simp add: lit_def py_strip_def py_lstrip_def py_rstrip_def isspace_cp_def in_ranges_def whitespace_ranges_def)
  have txt12: "py_strip (lit '' 12% \<newline>'') = lit ''12%''"
    by (simp add: lit_def py_strip_def py_lstrip_def py_rstrip_def isspace_cp_def in_ranges_def whitespace_ranges_def)
  have "to_numpy ?w (PilImage ()) = Inr () \<and> (1::nat) < 4
          \<and> (\<forall>j<1. \<exists>u. reply ?w () failure_configs (length (invocations start)) j = Inr u
                        \<and> py_strip u = [])
          \<and> reply ?w () failure_configs (length (invocations start)) 1 = Inr (lit '' 12% \<newline>'')
          \<and> py_strip (lit '' 12% \<newline>'') \<noteq> []"
    by (simp add: reads_blank_then_12pct_def c0 c1 blank txt12 start_def) (simp add: lit_def)
  from extract_failure_text_first_nonempty
         [of ?w "PilImage ()" "()" start, THEN conjunct2, THEN conjunct1, rule_format, OF this]
  show ?thesis
    by (simp add: txt12 start_def numeral_2_eq_2)
qed

lemma turn_configs_profiles:
  "turn_configs = map (\<lambda>psm. profile psm ''0123456789'') [''8'', ''7'', ''6'']"
  by (simp add: turn_configs_def profile_def)

lemma length_turn_configs: "length turn_configs = 3"
  by (simp add: turn_configs_profiles)

lemma accept_digits: "(truthy t \<and> py_isdigit t) = py_isdigit t"
  by (auto simp: truthy_def py_isdigit_def)

lemma loop_digits_isdigit:
  "loop_digits w a configs s = loop_until py_isdigit w a configs s"
  by (simp add: loop_digits_until accept_digits)

section \<open>extract_turn_number: two passes over three profiles\<close>

text \<open>
  C1.  \<open>extract_turn_number\<close> has three profiles with the digit whitelist, in the
  order single word (8), single line (7), uniform block (6).  With the image
  converted and \<open>n\<close> invocations made before the call:
  \<^item> if the first \<open>i\<close> profiles are answered with text that, trimmed, is not a
    non-empty string of digits and profile \<open>i\<close> with text that is, the result is
    that trimmed text, after \<open>i + 1\<close> invocations;
  \<^item> if no profile qualifies, the same three profiles are invoked again in the same
    order, and the result is the first trimmed answer of this second pass that is not
    empty, whether or not it is all digits;
  \<^item> if moreover every answer of the second pass is empty, the result is the empty
    string.
\<close>

theorem extract_turn_number_two_passes:
  "turn_configs = map (\<lambda>psm. profile psm ''0123456789'') [''8'', ''7'', ''6'']
   \<and> (\<forall>i t. to_numpy w img = Inr a \<and> i < 3
          \<and> (\<forall>j<i. \<exists>u. reply w a turn_configs (length (invocations s)) j = Inr u
                        \<and> \<not> py_isdigit (py_strip u))
          \<and> reply w a turn_configs (length (invocations s)) i = Inr t
          \<and> py_isdigit (py_strip t)
        \<longrightarrow> extract_turn_number w img s =
              (py_strip t, s\<lparr>invocations := invocations s @ returned (take (Suc i) turn_configs)\<rparr>))
   \<and> (\<forall>i t. to_numpy w img = Inr a \<and> i < 3
          \<and> (\<forall>j<3. \<exists>u. reply w a turn_configs (length (invocations s)) j = Inr u
                        \<and> \<not> py_isdigit (py_strip u))
          \<and> (\<forall>j<i. \<exists>u. reply w a turn_configs (length (invocations s) + 3) j = Inr u
                        \<and> py_strip u = [])
          \<and> reply w a turn_configs (length (invocations s) + 3) i = Inr t
          \<and> py_strip t \<noteq> []
        \<longrightarrow> extract_turn_number w img s =
              (py_strip t,
               s\<lparr>invocations := invocations s @ returned turn_configs
                                   @ returned (take (Suc i) turn_configs)\<rparr>))
   \<and> (to_numpy w img = Inr a
          \<and> (\<forall>j<3. \<exists>u. reply w a turn_configs (length (invocations s)) j = Inr u
                        \<and> \<not> py_isdigit (py_strip u))
          \<and> (\<forall>j<3. \<exists>u. reply w a turn_configs (length (invocations s) + 3) j = Inr u
                        \<and> py_strip u = [])
        \<longrightarrow> extract_turn_number w img s =
              ([], s\<lparr>invocations := invocations s @ returned turn_configs
                                       @ returned turn_configs\<rparr>))"
proof (intro conjI allI impI)
  show "turn_configs = map (\<lambda>psm. profile psm ''0123456789'') [''8'', ''7'', ''6'']"
    by (rule turn_configs_profiles)
next
  fix i t
  assume h: "to_numpy w img = Inr a \<and> i < 3
          \<and> (\<forall>j<i. \<exists>u. reply w a turn_configs (length (invocations s)) j = Inr u
                        \<and> \<not> py_isdigit (py_strip u))
          \<and> reply w a turn_configs (length (invocations s)) i = Inr t
          \<and> py_isdigit (py_strip t)"
  then have "loop_until py_isdigit w a turn_configs s =
           (Inr (Some (py_strip t)),
            s\<lparr>invocations := invocations s @ returned (take (Suc i) turn_configs)\<rparr>)"
    by (intro loop_until_hit) (simp_all add: length_turn_configs)
  with h show "extract_turn_number w img s =
              (py_strip t, s\<lparr>invocations := invocations s @ returned (take (Suc i) turn_configs)\<rparr>)"
    by (simp add: extract_turn_number_def extract_turn_number_body_def loop_digits_isdigit)
next
  fix i t
  let ?s1 = "s\<lparr>invocations := invocations s @ returned turn_configs\<rparr>"
  assume h: "to_numpy w img = Inr a \<and> i < 3
          \<and> (\<forall>j<3. \<exists>u. reply w a turn_configs (length (invocations s)) j = Inr u
                        \<and> \<not> py_isdigit (py_strip u))
          \<and> (\<forall>j<i. \<exists>u. reply w a turn_configs (length (invocations s) + 3) j = Inr u
                        \<and> py_strip u = [])
          \<and> reply w a turn_configs (length (invocations s) + 3) i = Inr t
          \<and> py_strip t \<noteq> []"
  then have first: "loop_until py_isdigit w a turn_configs s =
           (Inr None, ?s1)"
    by (intro loop_until_miss) (simp_all add: length_turn_configs)
  have n1: "length (invocations ?s1) = length (invocations s) + 3"
    by (simp add: returned_def length_turn_configs)
  from h have "loop_until truthy w a turn_configs ?s1 =
           (Inr (Some (py_strip t)),
            ?s1\<lparr>invocations := invocations ?s1 @ returned (take (Suc i) turn_configs)\<rparr>)"
    by (intro loop_until_hit) (simp_all only: n1 length_turn_configs truthy_def not_not, simp_all)
  with h first show "extract_turn_number w img s =
              (py_strip t,
               s\<lparr>invocations := invocations s @ returned turn_configs
                                   @ returned (take (Suc i) turn_configs)\<rparr>)"
    by (simp add: extract_turn_number_def extract_turn_number_body_def loop_digits_isdigit
        loop_nonempty_until)
next
  let ?s1 = "s\<lparr>invocations := invocations s @ returned turn_configs\<rparr>"
  assume h: "to_numpy w img = Inr a
          \<and> (\<forall>j<3. \<exists>u. reply w a turn_configs (length (invocations s)) j = Inr u
                        \<and> \<not> py_isdigit (py_strip u))
          \<and> (\<forall>j<3. \<exists>u. reply w a turn_configs (length (invocations s) + 3) j = Inr u
                        \<and> py_strip u = [])"
  then have first: "loop_until py_isdigit w a turn_configs s =
           (Inr None, ?s1)"
    by (intro loop_until_miss) (simp_all add: length_turn_configs)
  have n1: "length (invocations ?s1) = length (invocations s) + 3"
    by (simp add: returned_def length_turn_configs)
  from h have "loop_until truthy w a turn_configs ?s1 =
           (Inr None, ?s1\<lparr>invocations := invocations ?s1 @ returned turn_configs\<rparr>)"
    by (intro loop_until_miss) (simp_all only: n1 length_turn_configs truthy_def not_not, simp_all)
  with h first show "extract_turn_number w img s =
              ([], s\<lparr>invocations := invocations s @ returned turn_configs
                                       @ returned turn_configs\<rparr>)"
    by (simp add: extract_turn_number_def extract_turn_number_body_def loop_digits_isdigit
        loop_nonempty_until)
qed


text \<open>
  The instance of the claim: the single-word profile reads \<open>12O\<close>, with a letter, the
  single-line profile reads \<open>45\<close>; the result is \<open>45\<close>, after two invocations.
\<close>

lemma strip_12O: "py_strip (lit ''12O\<newline>'') = lit ''12O''"
  by (simp add: lit_def py_strip_def py_lstrip_def py_rstrip_def isspace_cp_def in_ranges_def
      whitespace_ranges_def)

lemma strip_45: "py_strip (lit ''45\<newline>'') = lit ''45''"
  by (simp add: lit_def py_strip_def py_lstrip_def py_rstrip_def isspace_cp_def in_ranges_def
      whitespace_ranges_def)

lemma isdigit_45: "py_isdigit (lit ''45'')"
  by (simp add: lit_def py_isdigit_def isdigit_cp_def in_ranges_def digit_ranges_def)

lemma not_isdigit_12O: "\<not> py_isdigit (lit ''12O'')"
  by (simp add: lit_def py_isdigit_def isdigit_cp_def in_ranges_def digit_ranges_def)

theorem extract_turn_number_two_passes_witness:
  "extract_turn_number (scripted reads_12O_then_45 engine_down) (PilImage ()) start =
     (lit ''45'', \<lparr>invocations = returned (take 2 turn_configs), stdout = []\<rparr>)"
proof -
  let ?w = "scripted reads_12O_then_45 engine_down"
  have c0: "turn_configs ! 0 = profile ''8'' ''0123456789''"
    and c1: "turn_configs ! Suc 0 \<noteq> profile ''8'' ''0123456789''"
    by (simp_all add: turn_configs_profiles profile_def)
  have "to_numpy ?w (PilImage ()) = Inr () \<and> (1::nat) < 3
          \<and> (\<forall>j<1. \<exists>u. reply ?w () turn_configs (length (invocations start)) j = Inr u
                        \<and> \<not> py_isdigit (py_strip u))
          \<and> reply ?w () turn_configs (length (invocations start)) 1 = Inr (lit ''45\<newline>'')
          \<and> py_isdigit (py_strip (lit ''45\<newline>''))"
    by (simp add: reads_12O_then_45_def c0 c1 strip_12O strip_45 isdigit_45 not_isdigit_12O
        start_def)
  from extract_turn_number_two_passes
         [of ?w "PilImage ()" "()" start, THEN conjunct2, THEN conjunct1, rule_format, OF this]
  show ?thesis
    by (simp add: strip_45 start_def numeral_2_eq_2)
qed

section \<open>Runs of the operations\<close>

subsection \<open>The bodies\<close>

lemma loop_until_Some_invokes:
  "loop_until accept w a configs s = (Inr (Some t), s') \<Longrightarrow>
   length (invocations s) < length (invocations s')"
proof (induction configs arbitrary: s)
  case Nil
  then show ?case by simp
next
  case (Cons config configs)
  show ?case
  proof (cases "image_to_string w a config ''eng'' (length (invocations s))")
    case (Inl m)
    with Cons.prems show ?thesis by (simp add: call_image_to_string_Inl)
  next
    case (Inr u)
    show ?thesis
    proof (cases "accept (py_strip u)")
      case True
      with Inr Cons.prems show ?thesis by (auto simp: call_image_to_string_Inr)
    next
      case False
      with Inr Cons.prems
      have "loop_until accept w a configs (invoked config Returned s) = (Inr (Some t), s')"
        by (simp add: call_image_to_string_Inr)
      from Cons.IH [OF this] show ?thesis by simp
    qed
  qed
qed

lemma runs_call_image_to_string:
  "runs 1 (\<lambda>t. True) s (call_image_to_string w a config s)"
  by (cases "image_to_string w a config ''eng'' (length (invocations s))")
     (simp_all add: runs_def call_image_to_string_def)

lemma runs_loop_until:
  "runs (length configs) (\<lambda>r. \<forall>t. r = Some t \<longrightarrow> accept t \<and> trimmed t) s
     (loop_until accept w a configs s)"
proof -
  obtain r s' where out: "loop_until accept w a configs s = (r, s')"
    by (cases "loop_until accept w a configs s")
  from loop_until_run [OF this] obtain new where
    new: "invocations s' = invocations s @ new" "length new \<le> length configs"
      "stdout s' = stdout s"
      "case r of Inl e \<Rightarrow> True | Inr None \<Rightarrow> new = returned configs
       | Inr (Some t) \<Rightarrow> accept t \<and> trimmed t \<and> list_all (\<lambda>(c, r). r = Returned) new"
    by blast
  have "\<forall>v. r = Inr v \<longrightarrow> (\<forall>t. v = Some t \<longrightarrow> accept t \<and> trimmed t)
          \<and> list_all (\<lambda>(config, r). r = Returned) new"
  proof (intro allI impI)
    fix v assume "r = Inr v"
    with new(4) show "(\<forall>t. v = Some t \<longrightarrow> accept t \<and> trimmed t)
          \<and> list_all (\<lambda>(config, r). r = Returned) new"
      by (cases v) (simp_all add: returned_def list_all_iff)
  qed
  with new(1-3) show ?thesis
    unfolding runs_def out by auto
qed

lemma length_mood_configs: "length mood_configs = 3"
  by (simp add: mood_configs_def)

lemma runs_Inl: "runs bound good s (Inl e, s)"
  by (simp add: runs_def)

lemma runs_single:
  assumes "runs 1 (\<lambda>t. True) s (r, s')"
  shows "runs 1 trimmed s
           (case (r, s') of (Inl e, s') \<Rightarrow> (Inl e, s') | (Inr text, s') \<Rightarrow> (Inr (py_strip text), s'))"
  using assms by (cases r) (auto simp: runs_def trimmed_py_strip)

lemma runs_select:
  assumes "runs bound (\<lambda>r. \<forall>t. r = Some t \<longrightarrow> accept t \<and> trimmed t) s (r, s')"
  shows "runs bound trimmed s
           (case (r, s') of
              (Inl e, s1) \<Rightarrow> (Inl e, s1)
            | (Inr (Some text), s1) \<Rightarrow> (Inr text, s1)
            | (Inr None, s1) \<Rightarrow> (Inr [], s1))"
  using assms by (cases r) (auto simp: runs_def trimmed_Nil split: option.splits)

lemma runs_extract_text_body: "runs 1 trimmed s (extract_text_body w img s)"
proof (cases "to_numpy w img")
  case (Inl e)
  then show ?thesis by (simp add: extract_text_body_def runs_Inl)
next
  case (Inr a)
  obtain r s' where out: "call_image_to_string w a text_config s = (r, s')"
    by (cases "call_image_to_string w a text_config s")
  with runs_call_image_to_string [of s w a text_config]
  have "runs 1 (\<lambda>t. True) s (r, s')" by simp
  from runs_single [OF this] show ?thesis
    by (simp add: extract_text_body_def Inr out)
qed

lemma runs_extract_number_body: "runs 1 trimmed s (extract_number_body w img s)"
proof (cases "to_numpy w img")
  case (Inl e)
  then show ?thesis by (simp add: extract_number_body_def runs_Inl)
next
  case (Inr a)
  obtain r s' where out: "call_image_to_string w a number_config s = (r, s')"
    by (cases "call_image_to_string w a number_config s")
  with runs_call_image_to_string [of s w a number_config]
  have "runs 1 (\<lambda>t. True) s (r, s')" by simp
  from runs_single [OF this] show ?thesis
    by (simp add: extract_number_body_def Inr out)
qed

lemma runs_extract_mood_text_body: "runs 3 trimmed s (extract_mood_text_body w img s)"
proof (cases "to_numpy w img")
  case (Inl e)
  then show ?thesis by (simp add: extract_mood_text_body_def runs_Inl)
next
  case (Inr a)
  obtain r s' where out: "loop_until truthy w a mood_configs s = (r, s')"
    by (cases "loop_until truthy w a mood_configs s")
  with runs_loop_until [of mood_configs truthy s w a]
  have "runs 3 (\<lambda>r. \<forall>t. r = Some t \<longrightarrow> truthy t \<and> trimmed t) s (r, s')"
    by (simp add: length_mood_configs)
  from runs_select [OF this] show ?thesis
    by (simp add: extract_mood_text_body_def Inr out loop_nonempty_until)
qed

lemma runs_extract_failure_text_body: "runs 4 trimmed s (extract_failure_text_body w img s)"
proof (cases "to_numpy w img")
  case (Inl e)
  then show ?thesis by (simp add: extract_failure_text_body_def runs_Inl)
next
  case (Inr a)
  obtain r s' where out: "loop_until truthy w a failure_configs s = (r, s')"
    by (cases "loop_until truthy w a failure_configs s")
  with runs_loop_until [of failure_configs truthy s w a]
  have "runs 4 (\<lambda>r. \<forall>t. r = Some t \<longrightarrow> truthy t \<and> trimmed t) s (r, s')"
    by (simp add: length_failure_configs)
  from runs_select [OF this] show ?thesis
    by (simp add: extract_failure_text_body_def Inr out loop_nonempty_until)
qed


lemma runs_extract_turn_number_body: "runs 6 trimmed s (extract_turn_number_body w img s)"
proof (cases "to_numpy w img")
  case (Inl e)
  then show ?thesis by (simp add: extract_turn_number_body_def runs_Inl)
next
  case (Inr a)
  obtain r1 s1 where out1: "loop_until py_isdigit w a turn_configs s = (r1, s1)"
    by (cases "loop_until py_isdigit w a turn_configs s")
  with runs_loop_until [of turn_configs py_isdigit s w a]
  have run1: "runs 3 (\<lambda>r. \<forall>t. r = Some t \<longrightarrow> py_isdigit t \<and> trimmed t) s (r1, s1)"
    by (simp add: length_turn_configs)
  show ?thesis
  proof (cases "r1 = Inr None")
    case False
    then have "extract_turn_number_body w img s =
        (case (r1, s1) of
              (Inl e, s1) \<Rightarrow> (Inl e, s1)
            | (Inr (Some text), s1) \<Rightarrow> (Inr text, s1)
            | (Inr None, s1) \<Rightarrow> (Inr [], s1))"
      by (simp add: extract_turn_number_body_def Inr out1 loop_digits_isdigit
          split: sum.splits option.splits)
    moreover have "runs 6 trimmed s
           (case (r1, s1) of
              (Inl e, s1) \<Rightarrow> (Inl e, s1)
            | (Inr (Some text), s1) \<Rightarrow> (Inr text, s1)
            | (Inr None, s1) \<Rightarrow> (Inr [], s1))"
      using runs_select [OF run1] by (auto simp: runs_def)
    ultimately show ?thesis by simp
  next
    case True
    obtain r2 s2 where out2: "loop_until truthy w a turn_configs s1 = (r2, s2)"
      by (cases "loop_until truthy w a turn_configs s1")
    with runs_loop_until [of turn_configs truthy s1 w a]
    have "runs 3 (\<lambda>r. \<forall>t. r = Some t \<longrightarrow> truthy t \<and> trimmed t) s1 (r2, s2)"
      by (simp add: length_turn_configs)
    from runs_select [OF this]
    have run2: "runs 3 trimmed s1
           (case (r2, s2) of
              (Inl e, s1) \<Rightarrow> (Inl e, s1)
            | (Inr (Some text), s1) \<Rightarrow> (Inr text, s1)
            | (Inr None, s1) \<Rightarrow> (Inr [], s1))" .
    have body: "extract_turn_number_body w img s =
           (case (r2, s2) of
              (Inl e, s1) \<Rightarrow> (Inl e, s1)
            | (Inr (Some text), s1) \<Rightarrow> (Inr text, s1)
            | (Inr None, s1) \<Rightarrow> (Inr [], s1))"
      by (simp add: extract_turn_number_body_def Inr out1 out2 True loop_digits_isdigit
          loop_nonempty_until)
    from run1 True obtain new1 where
      new1: "invocations s1 = invocations s @ new1" "length new1 \<le> 3" "stdout s1 = stdout s"
        "list_all (\<lambda>(config, r). r = Returned) new1"
      by (auto simp: runs_def)
    from run2 obtain new2 where
      new2: "invocations (snd (extract_turn_number_body w img s)) = invocations s1 @ new2"
        "length new2 \<le> 3" "stdout (snd (extract_turn_number_body w img s)) = stdout s1"
        "\<forall>v. fst (extract_turn_number_body w img s) = Inr v \<longrightarrow>
           trimmed v \<and> list_all (\<lambda>(config, r). r = Returned) new2"
      unfolding body [symmetric] runs_def by blast
    show ?thesis
      unfolding runs_def
    proof (intro exI conjI)
      show "invocations (snd (extract_turn_number_body w img s)) = invocations s @ (new1 @ new2)"
        using new1(1) new2(1) by simp
      show "length (new1 @ new2) \<le> 6" using new1(2) new2(2) by simp
      show "stdout (snd (extract_turn_number_body w img s)) = stdout s"
        using new1(3) new2(3) by simp
      show "\<forall>v. fst (extract_turn_number_body w img s) = Inr v \<longrightarrow>
           trimmed v \<and> list_all (\<lambda>(config, r). r = Returned) (new1 @ new2)"
        using new1(4) new2(4) by simp
    qed
  qed
qed

lemma runs_call_image_to_data:
  "runs 1 (\<lambda>d. True) s (call_image_to_data w a config s)"
  by (cases "image_to_data w a config ''eng'' (length (invocations s))")
     (simp_all add: runs_def call_image_to_data_def)

lemma score_tokens_trimmed: "score_tokens d = Inr (text, c) \<Longrightarrow> trimmed text"
  by (auto simp: score_tokens_def Let_def trimmed_py_strip trimmed_Nil
      split: option.splits sum.splits prod.splits if_splits)

lemma runs_extract_failure_text_with_confidence_body:
  "runs 1 (\<lambda>v. trimmed (fst v)) s (extract_failure_text_with_confidence_body w img s)"
proof (cases "to_numpy w img")
  case (Inl e)
  then show ?thesis by (simp add: extract_failure_text_with_confidence_body_def runs_Inl)
next
  case (Inr a)
  obtain r s' where out: "call_image_to_data w a confidence_config s = (r, s')"
    by (cases "call_image_to_data w a confidence_config s")
  with runs_call_image_to_data [of s w a confidence_config]
  have run: "runs 1 (\<lambda>d. True) s (r, s')" by simp
  show ?thesis
  proof (cases r)
    case (Inl e)
    with run show ?thesis
      by (simp add: extract_failure_text_with_confidence_body_def Inr out runs_def)
  next
    case d: (Inr d)
    with run show ?thesis
      using score_tokens_trimmed [of d]
      by (cases "score_tokens d")
         (auto simp: extract_failure_text_with_confidence_body_def Inr out runs_def)
  qed
qed

text \<open>From the body to the operation: the handler keeps the invocations.\<close>

lemma runs_except_warning:
  assumes "runs bound good s out" and "good sentinel"
  shows "engine_calls s (snd (except_warning prefix sentinel out)) \<le> bound
         \<and> good (fst (except_warning prefix sentinel out))
         \<and> (engine_raised s (snd (except_warning prefix sentinel out))
              \<longrightarrow> fst (except_warning prefix sentinel out) = sentinel)"
proof -
  obtain r s' where out: "out = (r, s')" by (cases out)
  from assms(1) obtain new where
    new: "invocations s' = invocations s @ new" "length new \<le> bound"
      "\<forall>v. r = Inr v \<longrightarrow> good v \<and> list_all (\<lambda>(config, r). r = Returned) new"
    by (auto simp: runs_def out)
  show ?thesis
  proof (cases r)
    case (Inl e)
    with new assms(2) show ?thesis
      by (simp add: out except_warning_Inl engine_calls_def new_invocations_def)
  next
    case (Inr v)
    with new have "list_all (\<lambda>(config, r). r = Returned) new" by simp
    then have "\<not> list_ex (\<lambda>(config, r). r \<noteq> Returned) new"
      by (auto simp: list_all_iff list_ex_iff)
    with Inr new show ?thesis
      by (simp add: out engine_calls_def engine_raised_def new_invocations_def)
  qed
qed

subsection \<open>The six operations\<close>

lemma extract_text_run:
  "engine_calls s (snd (extract_text w img s)) \<le> 1
   \<and> trimmed (fst (extract_text w img s))
   \<and> (engine_raised s (snd (extract_text w img s)) \<longrightarrow> fst (extract_text w img s) = [])"
  unfolding extract_text_def
  by (rule runs_except_warning [OF runs_extract_text_body trimmed_Nil])

lemma extract_number_run:
  "engine_calls s (snd (extract_number w img s)) \<le> 1
   \<and> trimmed (fst (extract_number w img s))
   \<and> (engine_raised s (snd (extract_number w img s)) \<longrightarrow> fst (extract_number w img s) = [])"
  unfolding extract_number_def
  by (rule runs_except_warning [OF runs_extract_number_body trimmed_Nil])

lemma extract_turn_number_run:
  "engine_calls s (snd (extract_turn_number w img s)) \<le> 6
   \<and> trimmed (fst (extract_turn_number w img s))
   \<and> (engine_raised s (snd (extract_turn_number w img s))
        \<longrightarrow> fst (extract_turn_number w img s) = [])"
  unfolding extract_turn_number_def
  by (rule runs_except_warning [OF runs_extract_turn_number_body trimmed_Nil])

lemma extract_mood_text_run:
  "engine_calls s (snd (extract_mood_text w img s)) \<le> 3
   \<and> trimmed (fst (extract_mood_text w img s))
   \<and> (engine_raised s (snd (extract_mood_text w img s))
        \<longrightarrow> fst (extract_mood_text w img s) = [])"
  unfolding extract_mood_text_def
  by (rule runs_except_warning [OF runs_extract_mood_text_body trimmed_Nil])

lemma extract_failure_text_run:
  "engine_calls s (snd (extract_failure_text w img s)) \<le> 4
   \<and> trimmed (fst (extract_failure_text w img s))
   \<and> (engine_raised s (snd (extract_failure_text w img s))
        \<longrightarrow> fst (extract_failure_text w img s) = [])"
  unfolding extract_failure_text_def
  by (rule runs_except_warning [OF runs_extract_failure_text_body trimmed_Nil])

lemma extract_failure_text_with_confidence_run:
  "engine_calls s (snd (extract_failure_text_with_confidence w img s)) \<le> 1
   \<and> trimmed (fst (fst (extract_failure_text_with_confidence w img s)))
   \<and> (engine_raised s (snd (extract_failure_text_with_confidence w img s))
        \<longrightarrow> fst (extract_failure_text_with_confidence w img s) = ([], Finite 0))"
  unfolding extract_failure_text_with_confidence_def
  by (rule runs_except_warning [OF runs_extract_failure_text_with_confidence_body])
     (simp add: trimmed_Nil)

section \<open>Engine errors are caught\<close>



text \<open>
  Instances: an engine that raises at once, for the operations with a single
  invocation, and one that answers the first invocation with nothing and raises at
  the second, for the operations with several profiles.
\<close>

lemma py_strip_Nil [simp]: "py_strip [] = []"
  by (simp add: py_strip_def py_lstrip_def py_rstrip_def)

lemmas run_defs =
  call_image_to_string_def call_image_to_data_def scripted_def except_warning_def invoked_def
  start_def engine_raised_def engine_calls_def new_invocations_def to_numpy_def truthy_def


section \<open>Results are trimmed\<close>

text \<open>
  C4.  For every engine, every image and every state of the process, the text each of
  the six operations returns has no whitespace character (no character for which
  \<open>str.isspace\<close> holds: space, tab, newline and the others) at its start or at its end.
\<close>

theorem results_are_trimmed:
  "trimmed (fst (extract_text w img s))
   \<and> trimmed (fst (extract_number w img s))
   \<and> trimmed (fst (extract_turn_number w img s))
   \<and> trimmed (fst (extract_mood_text w img s))
   \<and> trimmed (fst (extract_failure_text w img s))
   \<and> trimmed (fst (fst (extract_failure_text_with_confidence w img s)))"
  using extract_text_run [of s w img] extract_number_run [of s w img]
    extract_turn_number_run [of s w img] extract_mood_text_run [of s w img]
    extract_failure_text_run [of s w img]
    extract_failure_text_with_confidence_run [of s w img]
  by blast

text \<open>
  An instance with a result that is not empty: the engine answers the second profile
  of \<open>extract_failure_text\<close> with \<open>12%\<close> between spaces and before a newline.
\<close>

lemma strip_12pct: "py_strip (lit '' 12% \<newline>'') = lit ''12%''"
  by (simp add: lit_def py_strip_def py_lstrip_def py_rstrip_def isspace_cp_def in_ranges_def
      whitespace_ranges_def)

lemma strip_blank: "py_strip (lit '' \<newline>'') = []"
  by (simp add: lit_def py_strip_def py_lstrip_def py_rstrip_def isspace_cp_def in_ranges_def
      whitespace_ranges_def)

theorem results_are_trimmed_witness:
  "fst (extract_failure_text (scripted reads_blank_then_12pct engine_down) (PilImage ()) start)
     = lit ''12%''
   \<and> \<not> isspace_cp (hd (fst (extract_failure_text (scripted reads_blank_then_12pct engine_down)
                              (PilImage ()) start)))
   \<and> \<not> isspace_cp (last (fst (extract_failure_text (scripted reads_blank_then_12pct engine_down)
                                (PilImage ()) start)))"
proof -
  let ?r = "fst (extract_failure_text (scripted reads_blank_then_12pct engine_down)
                   (PilImage ()) start)"
  have ev: "?r = lit ''12%''"
    by (simp add: extract_failure_text_def extract_failure_text_body_def failure_configs_def
        run_defs reads_blank_then_12pct_def profile_def failure_whitelist_def strip_12pct
        strip_blank)
      (simp add: lit_def)
  then have "?r \<noteq> []" by (simp add: lit_def)
  with results_are_trimmed [of "scripted reads_blank_then_12pct engine_down" "PilImage ()" start]
  have "\<not> isspace_cp (hd ?r) \<and> \<not> isspace_cp (last ?r)"
    by (simp add: trimmed_def)
  with ev show ?thesis by simp
qed

section \<open>Number of engine invocations\<close>

text \<open>
  C6, as the code has it.  A call of \<open>extract_text\<close>, \<open>extract_number\<close> or
  \<open>extract_failure_text_with_confidence\<close> makes at most one engine invocation, a call of
  \<open>extract_mood_text\<close> at most three, a call of \<open>extract_failure_text\<close> at most four, and
  a call of \<open>extract_turn_number\<close> at most six (three in each pass); so every call
  makes at most six.
\<close>

theorem engine_calls_bounded:
  "engine_calls s (snd (extract_text w img s)) \<le> 1
   \<and> engine_calls s (snd (extract_number w img s)) \<le> 1
   \<and> engine_calls s (snd (extract_turn_number w img s)) \<le> 6
   \<and> engine_calls s (snd (extract_mood_text w img s)) \<le> 3
   \<and> engine_calls s (snd (extract_failure_text w img s)) \<le> 4
   \<and> engine_calls s (snd (extract_failure_text_with_confidence w img s)) \<le> 1"
  using extract_text_run [of s w img] extract_number_run [of s w img]
    extract_turn_number_run [of s w img] extract_mood_text_run [of s w img]
    extract_failure_text_run [of s w img]
    extract_failure_text_with_confidence_run [of s w img]
  by blast

text \<open>
  The bound of four invocations fails: when the engine finds no text,
  \<open>extract_turn_number\<close> invokes it six times.
\<close>

theorem four_engine_calls_counterexample:
  "engine_calls start
     (snd (extract_turn_number (scripted reads_nothing engine_down) (PilImage ()) start)) = 6
   \<and> \<not> engine_calls start
     (snd (extract_turn_number (scripted reads_nothing engine_down) (PilImage ()) start)) \<le> 4"
  by (simp add: extract_turn_number_def extract_turn_number_body_def turn_configs_def
      py_isdigit_def run_defs reads_nothing_def)

section \<open>Digits in the results of extract_number and extract_turn_number\<close>

lemma engine_calls_length:
  "engine_calls s s' = length (invocations s') - length (invocations s)"
  by (simp add: engine_calls_def new_invocations_def)

lemma start_simps [simp]: "invocations start = []" "stdout start = []"
  by (simp_all add: start_def)

lemma ascii_isdigit: "isdigit_cp c \<Longrightarrow> c < 128 \<Longrightarrow> ascii_digit c"
  by (simp add: isdigit_cp_def in_ranges_def digit_ranges_def ascii_digit_def)

lemma extract_turn_number_first_pass:
  assumes "fst (extract_turn_number w img s) \<noteq> []"
    and "engine_calls s (snd (extract_turn_number w img s)) \<le> 3"
  shows "py_isdigit (fst (extract_turn_number w img s))"
proof (cases "to_numpy w img")
  case (Inl e)
  with assms(1) show ?thesis
    by (simp add: extract_turn_number_def extract_turn_number_body_def except_warning_Inl)
next
  case (Inr a)
  obtain r1 s1 where out1: "loop_until py_isdigit w a turn_configs s = (r1, s1)"
    by (cases "loop_until py_isdigit w a turn_configs s")
  note body = extract_turn_number_def extract_turn_number_body_def Inr loop_digits_isdigit
    loop_nonempty_until
  show ?thesis
  proof (cases r1)
    case (Inl e)
    with assms(1) out1 show ?thesis by (simp add: body except_warning_Inl)
  next
    case r1: (Inr x)
    show ?thesis
    proof (cases x)
      case (Some t)
      with loop_until_run [OF out1] r1 have "py_isdigit t" by auto
      with Some r1 out1 show ?thesis by (simp add: body)
    next
      case None
      with loop_until_run [OF out1] r1
      have n1: "length (invocations s1) = length (invocations s) + 3"
        by (auto simp: returned_def length_turn_configs)
      obtain r2 s2 where out2: "loop_until truthy w a turn_configs s1 = (r2, s2)"
        by (cases "loop_until truthy w a turn_configs s1")
      show ?thesis
      proof (cases r2)
        case (Inl e)
        with assms(1) out1 out2 r1 None show ?thesis by (simp add: body except_warning_Inl)
      next
        case r2: (Inr y)
        show ?thesis
        proof (cases y)
          case None
          with assms(1) out1 out2 r1 r2 \<open>x = None\<close> show ?thesis by (simp add: body)
        next
          case (Some t)
          with out2 r2 have "length (invocations s1) < length (invocations s2)"
            by (auto dest: loop_until_Some_invokes)
          moreover have "snd (extract_turn_number w img s) = s2"
            using out1 out2 r1 r2 Some \<open>x = None\<close> by (simp add: body)
          ultimately show ?thesis
            using assms(2) n1 by (simp add: engine_calls_length)
        qed
      qed
    qed
  qed
qed

lemma extract_number_unchecked:
  assumes "fst (extract_number w img s) \<noteq> []"
  shows "\<exists>a t. to_numpy w img = Inr a
           \<and> image_to_string w a number_config ''eng'' (length (invocations s)) = Inr t
           \<and> fst (extract_number w img s) = py_strip t"
proof (cases "to_numpy w img")
  case (Inl e)
  with assms show ?thesis
    by (simp add: extract_number_def extract_number_body_def except_warning_Inl)
next
  case (Inr a)
  show ?thesis
  proof (cases "image_to_string w a number_config ''eng'' (length (invocations s))")
    case (Inl m)
    with assms Inr show ?thesis
      by (simp add: extract_number_def extract_number_body_def call_image_to_string_Inl
          except_warning_Inl)
  next
    case t: (Inr t)
    with Inr show ?thesis
      by (simp add: extract_number_def extract_number_body_def call_image_to_string_Inr)
  qed
qed

text \<open>
  C5, as the code has it.  Whenever \<open>extract_turn_number\<close> returns a non-empty string
  having made at most three engine invocations, that is without entering its second
  pass, the string passes \<open>str.isdigit\<close>: each of its characters is a Unicode digit, and
  those of them that are ASCII are among \<open>0\<close> to \<open>9\<close>.  Whenever \<open>extract_number\<close> returns
  a non-empty string, that string is the trimmed answer of its single engine
  invocation, unchecked; so it contains only \<open>0\<close> to \<open>9\<close> when the trimmed answer of the
  engine does.
\<close>

theorem digits_only_as_checked:
  "(fst (extract_turn_number w img s) \<noteq> []
       \<and> engine_calls s (snd (extract_turn_number w img s)) \<le> 3
     \<longrightarrow> py_isdigit (fst (extract_turn_number w img s))
         \<and> list_all (\<lambda>c. c < 128 \<longrightarrow> ascii_digit c) (fst (extract_turn_number w img s)))
   \<and> (fst (extract_number w img s) \<noteq> []
     \<longrightarrow> (\<exists>a t. to_numpy w img = Inr a
            \<and> image_to_string w a number_config ''eng'' (length (invocations s)) = Inr t
            \<and> fst (extract_number w img s) = py_strip t))
   \<and> (fst (extract_number w img s) \<noteq> []
       \<and> (\<forall>a t. image_to_string w a number_config ''eng'' (length (invocations s)) = Inr t
                 \<longrightarrow> list_all ascii_digit (py_strip t))
     \<longrightarrow> list_all ascii_digit (fst (extract_number w img s)))"
proof (intro conjI impI)
  assume h: "fst (extract_turn_number w img s) \<noteq> []
       \<and> engine_calls s (snd (extract_turn_number w img s)) \<le> 3"
  then show d: "py_isdigit (fst (extract_turn_number w img s))"
    by (simp add: extract_turn_number_first_pass)
  then show "list_all (\<lambda>c. c < 128 \<longrightarrow> ascii_digit c) (fst (extract_turn_number w img s))"
    by (auto simp: py_isdigit_def list_all_iff ascii_isdigit)
next
  assume "fst (extract_number w img s) \<noteq> []"
  then show "\<exists>a t. to_numpy w img = Inr a
            \<and> image_to_string w a number_config ''eng'' (length (invocations s)) = Inr t
            \<and> fst (extract_number w img s) = py_strip t"
    by (rule extract_number_unchecked)
next
  assume h: "fst (extract_number w img s) \<noteq> []
       \<and> (\<forall>a t. image_to_string w a number_config ''eng'' (length (invocations s)) = Inr t
                 \<longrightarrow> list_all ascii_digit (py_strip t))"
  with extract_number_unchecked [of w img s] obtain a t where
    "image_to_string w a number_config ''eng'' (length (invocations s)) = Inr t"
    "fst (extract_number w img s) = py_strip t"
    by blast
  with h show "list_all ascii_digit (fst (extract_number w img s))" by auto
qed

text \<open>
  An instance: the engine reads \<open>12O\<close> in single-word mode and \<open>45\<close> otherwise;
  \<open>extract_turn_number\<close> returns \<open>45\<close> from its first pass and \<open>extract_number\<close> returns
  the \<open>45\<close> the engine read.
\<close>

theorem digits_only_as_checked_witness:
  "fst (extract_turn_number (scripted reads_12O_then_45 engine_down) (PilImage ()) start)
     = lit ''45''
   \<and> engine_calls start
        (snd (extract_turn_number (scripted reads_12O_then_45 engine_down) (PilImage ()) start))
     = 2
   \<and> py_isdigit
        (fst (extract_turn_number (scripted reads_12O_then_45 engine_down) (PilImage ()) start))
   \<and> fst (extract_number (scripted reads_12O_then_45 engine_down) (PilImage ()) start)
     = lit ''45''
   \<and> list_all ascii_digit
        (fst (extract_number (scripted reads_12O_then_45 engine_down) (PilImage ()) start))"
proof -
  let ?w = "scripted reads_12O_then_45 engine_down"
  let ?img = "PilImage () :: (unit, unit) image"
  have turn: "extract_turn_number ?w ?img start =
      (lit ''45'', \<lparr>invocations = returned (take 2 turn_configs), stdout = []\<rparr>)"
    by (simp add: extract_turn_number_def extract_turn_number_body_def turn_configs_def
        run_defs reads_12O_then_45_def profile_def strip_12O strip_45 isdigit_45
        not_isdigit_12O returned_def)
      (simp add: lit_def)
  have number: "fst (extract_number ?w ?img start) = lit ''45''"
    by (simp add: extract_number_def extract_number_body_def number_config_def
        run_defs reads_12O_then_45_def profile_def strip_45)
  have calls: "engine_calls start (snd (extract_turn_number ?w ?img start)) = 2"
    by (simp add: turn engine_calls_length returned_def turn_configs_def)
  have answers: "\<forall>a t. image_to_string ?w a number_config ''eng'' (length (invocations start))
                   = Inr t \<longrightarrow> list_all ascii_digit (py_strip t)"
  proof (intro allI impI)
    fix a t
    assume "image_to_string ?w a number_config ''eng'' (length (invocations start)) = Inr t"
    then have "t = lit ''45\<newline>''"
      by (simp add: scripted_def reads_12O_then_45_def number_config_def profile_def)
    then show "list_all ascii_digit (py_strip t)"
      by (simp add: strip_45) (simp add: lit_def ascii_digit_def)
  qed
  have nonempty: "fst (extract_turn_number ?w ?img start) \<noteq> []"
    "fst (extract_number ?w ?img start) \<noteq> []"
    by (simp_all add: turn number lit_def)
  from digits_only_as_checked [of ?w ?img start] nonempty calls answers
  have "py_isdigit (fst (extract_turn_number ?w ?img start))"
    and "list_all ascii_digit (fst (extract_number ?w ?img start))"
    by simp_all
  with turn number calls show ?thesis by simp
qed

text \<open>
  The claim as stated fails.  When the engine reads \<open>12O\<close>, \<open>extract_number\<close> returns
  \<open>12O\<close>: it applies no test to what the engine read.  When the engine reads a
  superscript two (U+00B2), \<open>extract_turn_number\<close> returns it from its first pass, after
  one invocation: \<open>str.isdigit\<close> accepts it.
\<close>

theorem digits_only_counterexample:
  "fst (extract_number (scripted reads_12O engine_down) (PilImage ()) start) = lit ''12O''
   \<and> \<not> list_all ascii_digit
         (fst (extract_number (scripted reads_12O engine_down) (PilImage ()) start))
   \<and> fst (extract_turn_number (scripted reads_superscript_two engine_down) (PilImage ()) start)
       = [178]
   \<and> engine_calls start
        (snd (extract_turn_number (scripted reads_superscript_two engine_down) (PilImage ()) start))
       = 1
   \<and> \<not> list_all ascii_digit
         (fst (extract_turn_number (scripted reads_superscript_two engine_down)
                 (PilImage ()) start))"
proof -
  have number: "fst (extract_number (scripted reads_12O engine_down) (PilImage ()) start)
      = lit ''12O''"
    by (simp add: extract_number_def extract_number_body_def run_defs reads_12O_def strip_12O)
  have strip2: "py_strip [178, 10] = [178]"
    by (simp add: py_strip_def py_lstrip_def py_rstrip_def isspace_cp_def in_ranges_def
        whitespace_ranges_def)
  have digit2: "py_isdigit [178]"
    by (simp add: py_isdigit_def isdigit_cp_def in_ranges_def digit_ranges_def)
  have turn: "extract_turn_number (scripted reads_superscript_two engine_down) (PilImage ()) start
      = ([178], \<lparr>invocations = returned (take 1 turn_configs), stdout = []\<rparr>)"
    by (simp add: extract_turn_number_def extract_turn_number_body_def turn_configs_def
        run_defs reads_superscript_two_def strip2 digit2 returned_def)
  show ?thesis
    by (simp add: number turn engine_calls_length returned_def turn_configs_def
        lit_def ascii_digit_def)
qed

section \<open>The second pass of extract_turn_number and a single-pass variant\<close>

lemma find_snoc:
  "find P (xs @ [y]) = (case find P xs of Some x \<Rightarrow> Some x | None \<Rightarrow> if P y then Some y else None)"
  by (induction xs) simp_all

lemma fst_except_warning:
  "fst (except_warning prefix sentinel (r, s)) = (case r of Inl e \<Rightarrow> sentinel | Inr v \<Rightarrow> v)"
  by (cases r) (simp_all add: except_warning_Inl)

lemma single_pass_loop_two_loops:
  assumes "deterministic w"
  shows "fst (single_pass_loop w a configs recorded s) =
     (case fst (loop_until py_isdigit w a configs s) of
        Inl e \<Rightarrow> Inl e
      | Inr (Some t) \<Rightarrow> Inr t
      | Inr None \<Rightarrow>
          (case find truthy recorded of
             Some t \<Rightarrow> Inr t
           | None \<Rightarrow>
               (case fst (loop_until truthy w a configs s') of
                  Inl e \<Rightarrow> Inl e
                | Inr (Some t) \<Rightarrow> Inr t
                | Inr None \<Rightarrow> Inr [])))"
proof (induction configs arbitrary: recorded s s')
  case Nil
  show ?case by (simp split: option.splits)
next
  case (Cons config configs)
  have same: "image_to_string w a config ''eng'' n = image_to_string w a config ''eng'' 0" for n
    using assms by (simp add: deterministic_def)
  show ?case
  proof (cases "image_to_string w a config ''eng'' 0")
    case (Inl m)
    then have "call_image_to_string w a config u = (Inl (External m), invoked config (Raised m) u)"
      for u
      using same [of "length (invocations u)"] by (simp add: call_image_to_string_Inl)
    then show ?thesis by simp
  next
    case (Inr t)
    then have call: "call_image_to_string w a config u = (Inr t, invoked config Returned u)" for u
      using same [of "length (invocations u)"] by (simp add: call_image_to_string_Inr)
    show ?thesis
    proof (cases "py_isdigit (py_strip t)")
      case True
      then show ?thesis
        by (simp add: call accept_digits)
    next
      case False
      define A where "A = fst (loop_until py_isdigit w a configs (invoked config Returned s))"
      define B where "B = fst (loop_until truthy w a configs (invoked config Returned s'))"
      have IH: "fst (single_pass_loop w a configs (recorded @ [py_strip t])
                       (invoked config Returned s)) =
         (case A of
            Inl e \<Rightarrow> Inl e
          | Inr (Some t) \<Rightarrow> Inr t
          | Inr None \<Rightarrow>
              (case find truthy (recorded @ [py_strip t]) of
                 Some t \<Rightarrow> Inr t
               | None \<Rightarrow>
                   (case B of
                      Inl e \<Rightarrow> Inl e
                    | Inr (Some t) \<Rightarrow> Inr t
                    | Inr None \<Rightarrow> Inr [])))"
        unfolding A_def B_def by (rule Cons.IH)
      have lhs: "fst (single_pass_loop w a (config # configs) recorded s) =
          fst (single_pass_loop w a configs (recorded @ [py_strip t])
                       (invoked config Returned s))"
        using False by (simp add: call)
      have first: "fst (loop_until py_isdigit w a (config # configs) s) = A"
        using False by (simp add: call A_def)
      have second: "fst (loop_until truthy w a (config # configs) s') =
          (if truthy (py_strip t) then Inr (Some (py_strip t)) else B)"
        by (simp add: call B_def)
      show ?thesis
        unfolding lhs IH first second
        by (cases A; cases "projr A"; cases "find truthy recorded"; cases "truthy (py_strip t)")
           (simp_all add: find_snoc)
    qed
  qed
qed

lemma same_string_as_single_pass:
  "deterministic w \<Longrightarrow>
   fst (extract_turn_number w img s) = fst (extract_turn_number_single_pass w img s)"
proof (cases "to_numpy w img")
  case (Inl e)
  then show ?thesis
    by (simp add: extract_turn_number_def extract_turn_number_body_def
        extract_turn_number_single_pass_def)
next
  case (Inr a)
  assume det: "deterministic w"
  obtain r1 s1 where out1: "loop_until py_isdigit w a turn_configs s = (r1, s1)"
    by (cases "loop_until py_isdigit w a turn_configs s")
  obtain r2 s2 where out2: "loop_until truthy w a turn_configs s1 = (r2, s2)"
    by (cases "loop_until truthy w a turn_configs s1")
  obtain r s' where out: "single_pass_loop w a turn_configs [] s = (r, s')"
    by (cases "single_pass_loop w a turn_configs [] s")
  have r: "r = (case r1 of
        Inl e \<Rightarrow> Inl e
      | Inr (Some t) \<Rightarrow> Inr t
      | Inr None \<Rightarrow>
               (case r2 of
                  Inl e \<Rightarrow> Inl e
                | Inr (Some t) \<Rightarrow> Inr t
                | Inr None \<Rightarrow> Inr []))"
    using single_pass_loop_two_loops [OF det, of a turn_configs "[]" s s1]
    unfolding out out1 out2 fst_conv
    by (cases r1; cases "projr r1") simp_all
  have body: "extract_turn_number_body w img s =
      (case r1 of
         Inl e \<Rightarrow> (Inl e, s1)
       | Inr (Some t) \<Rightarrow> (Inr t, s1)
       | Inr None \<Rightarrow>
           (case r2 of
              Inl e \<Rightarrow> (Inl e, s2)
            | Inr (Some t) \<Rightarrow> (Inr t, s2)
            | Inr None \<Rightarrow> (Inr [], s2)))"
    by (cases r1; cases "projr r1")
       (simp_all add: extract_turn_number_body_def Inr out1 out2 loop_digits_isdigit
          loop_nonempty_until)
  have "fst (extract_turn_number w img s) = (case r of Inl e \<Rightarrow> [] | Inr v \<Rightarrow> v)"
  proof (cases r1)
    case (Inl e)
    then show ?thesis
      by (simp add: r extract_turn_number_def body fst_except_warning)
  next
    case r1: (Inr x)
    show ?thesis
    proof (cases x)
      case (Some t)
      with r1 show ?thesis
        by (simp add: r extract_turn_number_def body fst_except_warning)
    next
      case None
      show ?thesis
      proof (cases r2)
        case (Inl e)
        with r1 None show ?thesis
          by (simp add: r extract_turn_number_def body fst_except_warning)
      next
        case r2: (Inr y)
        with r1 None show ?thesis
          by (cases y) (simp_all add: r extract_turn_number_def body fst_except_warning)
      qed
    qed
  qed
  moreover have "fst (extract_turn_number_single_pass w img s) =
      (case r of Inl e \<Rightarrow> [] | Inr v \<Rightarrow> v)"
    by (simp add: extract_turn_number_single_pass_def Inr out fst_except_warning)
  ultimately show ?thesis by simp
qed

lemma loop_until_answered:
  assumes "\<forall>j<length configs. \<exists>u. reply w a configs (length (invocations s)) j = Inr u"
  shows "\<exists>k r. k \<le> length configs \<and> (configs \<noteq> [] \<longrightarrow> 1 \<le> k)
           \<and> loop_until accept w a configs s =
               (Inr r, s\<lparr>invocations := invocations s @ returned (take k configs)\<rparr>)"
  using assms
proof (induction configs arbitrary: s)
  case Nil
  then show ?case by (simp add: returned_def)
next
  case (Cons config configs)
  from Cons.prems obtain u where u: "reply w a (config # configs) (length (invocations s)) 0 = Inr u"
    by auto
  let ?s' = "invoked config Returned s"
  have call: "call_image_to_string w a config s = (Inr u, ?s')"
    using u by (simp add: reply_def call_image_to_string_Inr)
  show ?case
  proof (cases "accept (py_strip u)")
    case True
    then have "loop_until accept w a (config # configs) s =
        (Inr (Some (py_strip u)),
         s\<lparr>invocations := invocations s @ returned (take 1 (config # configs))\<rparr>)"
      by (simp add: call returned_def invoked_def)
    then show ?thesis by (intro exI [of _ 1] exI conjI) simp_all
  next
    case False
    have shift: "reply w a configs (Suc n) j = reply w a (config # configs) n (Suc j)" for j n
      by (simp add: reply_def)
    have "\<forall>j<length configs. \<exists>u. reply w a configs (length (invocations ?s')) j = Inr u"
      using Cons.prems by (simp add: shift)
    from Cons.IH [OF this] obtain k r where
      k: "k \<le> length configs"
        "loop_until accept w a configs ?s' =
           (Inr r, ?s'\<lparr>invocations := invocations ?s' @ returned (take k configs)\<rparr>)"
      by blast
    from k(2) False
    have "loop_until accept w a (config # configs) s =
        (Inr r, s\<lparr>invocations := invocations s @ returned (take (Suc k) (config # configs))\<rparr>)"
      by (simp add: call returned_def invoked_def)
    with k(1) show ?thesis by (intro exI [of _ "Suc k"] exI conjI) simp_all
  qed
qed

lemma single_pass_loop_trace:
  assumes "\<forall>j<length configs. \<exists>u. reply w a configs (length (invocations s)) j = Inr u
             \<and> \<not> py_isdigit (py_strip u)"
  shows "\<exists>r. single_pass_loop w a configs recorded s =
           (Inr r, s\<lparr>invocations := invocations s @ returned configs\<rparr>)"
  using assms
proof (induction configs arbitrary: s recorded)
  case Nil
  then show ?case by (simp add: returned_def)
next
  case (Cons config configs)
  from Cons.prems obtain u where
    u: "reply w a (config # configs) (length (invocations s)) 0 = Inr u"
       "\<not> py_isdigit (py_strip u)"
    by auto
  let ?s' = "invoked config Returned s"
  have call: "call_image_to_string w a config s = (Inr u, ?s')"
    using u(1) by (simp add: reply_def call_image_to_string_Inr)
  have shift: "reply w a configs (Suc n) j = reply w a (config # configs) n (Suc j)" for j n
    by (simp add: reply_def)
  have "\<forall>j<length configs. \<exists>u. reply w a configs (length (invocations ?s')) j = Inr u
             \<and> \<not> py_isdigit (py_strip u)"
    using Cons.prems by (simp add: shift)
  from Cons.IH [OF this, of "recorded @ [py_strip u]"] obtain r where
    "single_pass_loop w a configs (recorded @ [py_strip u]) ?s' =
           (Inr r, ?s'\<lparr>invocations := invocations ?s' @ returned configs\<rparr>)"
    by blast
  with u(2) show ?case
    by (simp add: call returned_def invoked_def)
qed

lemma new_invocations_append [simp]:
  "new_invocations s (s\<lparr>invocations := invocations s @ new\<rparr>) = new"
  by (simp add: new_invocations_def)

lemma second_pass_invokes_again:
  assumes det: "deterministic w"
    and img: "to_numpy w img = Inr a"
    and none: "\<forall>j<3. \<exists>u. image_to_string w a (turn_configs ! j) ''eng'' 0 = Inr u
                    \<and> \<not> py_isdigit (py_strip u)"
  shows "\<exists>k. 1 \<le> k \<and> k \<le> 3
           \<and> new_invocations s (snd (extract_turn_number w img s))
               = returned turn_configs @ returned (take k turn_configs)"
    and "new_invocations s (snd (extract_turn_number_single_pass w img s)) = returned turn_configs"
proof -
  have same: "reply w a turn_configs n j = image_to_string w a (turn_configs ! j) ''eng'' 0" for n j
    using det deterministic_def [of w] unfolding reply_def by blast
  let ?s1 = "s\<lparr>invocations := invocations s @ returned turn_configs\<rparr>"
  have first: "loop_until py_isdigit w a turn_configs s = (Inr None, ?s1)"
    using none by (intro loop_until_miss) (simp add: same length_turn_configs)
  have "\<forall>j<length turn_configs. \<exists>u. reply w a turn_configs (length (invocations ?s1)) j = Inr u"
    using none unfolding same length_turn_configs by blast
  from loop_until_answered [OF this, of truthy] obtain k r where
    k: "k \<le> length turn_configs" "turn_configs \<noteq> [] \<longrightarrow> 1 \<le> k"
      "loop_until truthy w a turn_configs ?s1 =
         (Inr r, ?s1\<lparr>invocations := invocations ?s1 @ returned (take k turn_configs)\<rparr>)"
    by blast
  have ne: "turn_configs \<noteq> []" using length_turn_configs by auto
  have "snd (extract_turn_number w img s) =
      s\<lparr>invocations := invocations s @ (returned turn_configs @ returned (take k turn_configs))\<rparr>"
    by (cases r)
       (simp_all add: extract_turn_number_def extract_turn_number_body_def img first k(3)
          loop_digits_isdigit loop_nonempty_until)
  then have "new_invocations s (snd (extract_turn_number w img s))
      = returned turn_configs @ returned (take k turn_configs)"
    by (simp only: new_invocations_append)
  with k(1,2) ne show "\<exists>k. 1 \<le> k \<and> k \<le> 3
           \<and> new_invocations s (snd (extract_turn_number w img s))
               = returned turn_configs @ returned (take k turn_configs)"
    unfolding length_turn_configs by blast
  have "\<forall>j<length turn_configs. \<exists>u. reply w a turn_configs (length (invocations s)) j = Inr u
             \<and> \<not> py_isdigit (py_strip u)"
    using none unfolding same length_turn_configs by blast
  from single_pass_loop_trace [OF this, of "[]"] obtain r' where
    "single_pass_loop w a turn_configs [] s = (Inr r', ?s1)" by blast
  then have "snd (extract_turn_number_single_pass w img s) = ?s1"
    by (simp add: extract_turn_number_single_pass_def img)
  then show "new_invocations s (snd (extract_turn_number_single_pass w img s))
      = returned turn_configs"
    by (simp only: new_invocations_append)
qed

text \<open>
  C9.  For an engine whose answer depends on the image and the configuration only:
  \<^item> \<open>extract_turn_number\<close> returns the same string as the single-pass variant, which
    keeps the trimmed output of each profile and, when none is a non-empty string of
    digits, returns the first of them that is not empty;
  \<^item> when no profile qualifies in the first pass, the second pass of
    \<open>extract_turn_number\<close> invokes the engine again, with the same configurations in the
    same order (all three, or as many as it takes to find a non-empty answer, at least
    one), where the single-pass variant makes the three invocations of the first pass
    and no other.
\<close>

theorem two_passes_refine_single_pass:
  "deterministic w \<Longrightarrow>
   fst (extract_turn_number w img s) = fst (extract_turn_number_single_pass w img s)
   \<and> (\<forall>a. to_numpy w img = Inr a
          \<and> (\<forall>j<3. \<exists>u. image_to_string w a (turn_configs ! j) ''eng'' 0 = Inr u
                        \<and> \<not> py_isdigit (py_strip u))
        \<longrightarrow> (\<exists>k. 1 \<le> k \<and> k \<le> 3
                 \<and> new_invocations s (snd (extract_turn_number w img s))
                     = returned turn_configs @ returned (take k turn_configs))
            \<and> new_invocations s (snd (extract_turn_number_single_pass w img s))
                = returned turn_configs)"
proof (intro conjI allI impI)
  assume det: "deterministic w"
  then show "fst (extract_turn_number w img s) = fst (extract_turn_number_single_pass w img s)"
    by (rule same_string_as_single_pass)
  fix a
  assume h: "to_numpy w img = Inr a
          \<and> (\<forall>j<3. \<exists>u. image_to_string w a (turn_configs ! j) ''eng'' 0 = Inr u
                        \<and> \<not> py_isdigit (py_strip u))"
  then have img: "to_numpy w img = Inr a"
    and none: "\<forall>j<3. \<exists>u. image_to_string w a (turn_configs ! j) ''eng'' 0 = Inr u
                        \<and> \<not> py_isdigit (py_strip u)"
    by simp_all
  from second_pass_invokes_again(1) [OF det img none]
  show "\<exists>k. 1 \<le> k \<and> k \<le> 3
                 \<and> new_invocations s (snd (extract_turn_number w img s))
                     = returned turn_configs @ returned (take k turn_configs)" .
  from second_pass_invokes_again(2) [OF det img none]
  show "new_invocations s (snd (extract_turn_number_single_pass w img s))
                = returned turn_configs" .
qed

text \<open>
  An instance in which the fallback is taken: the engine reads \<open>12O\<close> under every
  configuration.  Both return \<open>12O\<close>; \<open>extract_turn_number\<close> has invoked the engine four
  times, with the three configurations and the first one again, the single-pass
  variant three times.
\<close>

theorem two_passes_refine_single_pass_witness:
  "deterministic (scripted reads_12O engine_down)
   \<and> fst (extract_turn_number (scripted reads_12O engine_down) (PilImage ()) start) = lit ''12O''
   \<and> fst (extract_turn_number_single_pass (scripted reads_12O engine_down) (PilImage ()) start)
       = lit ''12O''
   \<and> new_invocations start
        (snd (extract_turn_number (scripted reads_12O engine_down) (PilImage ()) start))
       = returned turn_configs @ returned (take 1 turn_configs)
   \<and> new_invocations start
        (snd (extract_turn_number_single_pass (scripted reads_12O engine_down) (PilImage ()) start))
       = returned turn_configs"
proof -
  let ?w = "scripted reads_12O engine_down"
  have det: "deterministic ?w"
    by (simp add: deterministic_def scripted_def reads_12O_def)
  have two: "extract_turn_number ?w (PilImage ()) start =
      (lit ''12O'',
       \<lparr>invocations = returned turn_configs @ returned (take 1 turn_configs), stdout = []\<rparr>)"
    by (simp add: extract_turn_number_def extract_turn_number_body_def turn_configs_def
        run_defs reads_12O_def strip_12O not_isdigit_12O returned_def)
      (simp add: lit_def)
  have h: "to_numpy ?w (PilImage ()) = Inr ()
          \<and> (\<forall>j<3. \<exists>u. image_to_string ?w () (turn_configs ! j) ''eng'' 0 = Inr u
                        \<and> \<not> py_isdigit (py_strip u))"
    by (simp add: scripted_def reads_12O_def strip_12O not_isdigit_12O to_numpy_def)
  have tr: "new_invocations start (snd (extract_turn_number ?w (PilImage ()) start))
       = returned turn_configs @ returned (take 1 turn_configs)"
    by (simp add: two new_invocations_def)
  from two_passes_refine_single_pass [OF det, of "PilImage ()" start] two h tr det
  show ?thesis by simp
qed

section \<open>Facts about the confidence computation\<close>

subsection \<open>Rounding to binary64\<close>

lemma round_half_even_cases:
  "round_half_even x = \<lfloor>x\<rfloor> \<and> x - of_int \<lfloor>x\<rfloor> \<le> 1 / 2
   \<or> round_half_even x = \<lfloor>x\<rfloor> + 1 \<and> 1 / 2 \<le> x - of_int \<lfloor>x\<rfloor>"
  by (auto simp: round_half_even_def Let_def)

lemma round_half_even_le: "x \<le> of_int k \<Longrightarrow> round_half_even x \<le> k"
proof -
  assume le: "x \<le> of_int k"
  then have f: "\<lfloor>x\<rfloor> \<le> k" by (simp add: floor_le_iff)
  from round_half_even_cases [of x] show ?thesis
  proof
    assume "round_half_even x = \<lfloor>x\<rfloor> \<and> x - of_int \<lfloor>x\<rfloor> \<le> 1 / 2"
    with f show ?thesis by simp
  next
    assume up: "round_half_even x = \<lfloor>x\<rfloor> + 1 \<and> 1 / 2 \<le> x - of_int \<lfloor>x\<rfloor>"
    then have "of_int \<lfloor>x\<rfloor> < x" by linarith
    with le have "(of_int \<lfloor>x\<rfloor> :: rat) < of_int k" by linarith
    then have "\<lfloor>x\<rfloor> < k" by (simp only: of_int_less_iff)
    with up show ?thesis by simp
  qed
qed

lemma round_half_even_ge: "of_int k \<le> x \<Longrightarrow> k \<le> round_half_even x"
proof -
  assume "of_int k \<le> x"
  then have "k \<le> \<lfloor>x\<rfloor>" by (simp add: le_floor_iff)
  with round_half_even_cases [of x] show ?thesis by auto
qed

lemma round_half_even_error: "\<bar>of_int (round_half_even x) - x\<bar> \<le> 1 / 2"
proof -
  have "of_int \<lfloor>x\<rfloor> \<le> x" "x < of_int \<lfloor>x\<rfloor> + 1" by linarith+
  with round_half_even_cases [of x] show ?thesis by auto
qed

lemma floor_log2_less:
  assumes "0 < x" and "x < 2 ^ k" and "0 < k"
  shows "floor_log2 x < int k"
proof (cases "1 \<le> x")
  case True
  have "\<lfloor>x\<rfloor> < 2 ^ k"
  proof -
    have "of_int \<lfloor>x\<rfloor> \<le> x" by linarith
    with assms(2) have "(of_int \<lfloor>x\<rfloor> :: rat) < 2 ^ k" by linarith
    then have "(of_int \<lfloor>x\<rfloor> :: rat) < of_int (2 ^ k)" by simp
    then show ?thesis by (simp only: of_int_less_iff)
  qed
  then have "bitlen \<lfloor>x\<rfloor> \<le> int k"
    by (simp add: bitlen_le_iff_power)
  with True show ?thesis by (simp add: floor_log2_def)
next
  case False
  have "0 \<le> bitlen (\<lceil>1 / x\<rceil> - 1)" by (rule bitlen_nonneg)
  with False assms(3) show ?thesis by (simp add: floor_log2_def)
qed


text \<open>
  Below \<open>2 ^ k\<close> with \<open>k \<le> 53\<close> the binary64 values are multiples of \<open>1 / 2 ^ N\<close> for
  some \<open>N \<ge> 53 - k\<close>, and rounding is rounding to such a multiple.
\<close>

lemma round_binary64_scale:
  assumes "x \<noteq> 0" and "\<bar>x\<bar> < 2 ^ k" and "0 < k" and "k \<le> 53"
  shows "\<exists>N. 53 \<le> N + k \<and> round_binary64 x = of_int (round_half_even (x * 2 ^ N)) / 2 ^ N"
proof -
  define e where "e = max (floor_log2 \<bar>x\<bar>) (- 1022) - 52"
  from assms have "floor_log2 \<bar>x\<bar> < int k"
    by (intro floor_log2_less) simp_all
  with assms(3,4) have e: "e \<le> int k - 53" by (simp add: e_def)
  with assms(4) have e0: "e \<le> 0" by simp
  then have pow: "(2::rat) powi e = 1 / 2 ^ nat (- e)"
    by (cases "e = 0") (simp_all add: power_int_def field_simps)
  have "round_binary64 x = of_int (round_half_even (x / 2 powi e)) * 2 powi e"
    using assms(1) by (simp add: round_binary64_def e_def Let_def)
  then have "round_binary64 x = of_int (round_half_even (x * 2 ^ nat (- e))) / 2 ^ nat (- e)"
    by (simp add: pow)
  moreover from e have "53 \<le> nat (- e) + k" by simp
  ultimately show ?thesis by blast
qed

lemma round_binary64_le:
  assumes "x \<le> of_int K" and "\<bar>x\<bar> < 2 ^ k" and "0 < k" and "k \<le> 53"
  shows "round_binary64 x \<le> of_int K"
proof (cases "x = 0")
  case True
  with assms(1) show ?thesis by (simp add: round_binary64_def)
next
  case False
  from round_binary64_scale [OF False assms(2-4)] obtain N where
    N: "round_binary64 x = of_int (round_half_even (x * 2 ^ N)) / 2 ^ N" by blast
  from assms(1) have "x * 2 ^ N \<le> of_int K * 2 ^ N" by simp
  then have "x * 2 ^ N \<le> of_int (K * 2 ^ N)" by simp
  then have "round_half_even (x * 2 ^ N) \<le> K * 2 ^ N" by (rule round_half_even_le)
  then have "(of_int (round_half_even (x * 2 ^ N)) :: rat) \<le> of_int (K * 2 ^ N)"
    by (simp only: of_int_le_iff)
  then show ?thesis by (simp add: N field_simps)
qed

lemma round_binary64_ge:
  assumes "of_int K \<le> x" and "\<bar>x\<bar> < 2 ^ k" and "0 < k" and "k \<le> 53"
  shows "of_int K \<le> round_binary64 x"
proof (cases "x = 0")
  case True
  with assms(1) show ?thesis by (simp add: round_binary64_def)
next
  case False
  from round_binary64_scale [OF False assms(2-4)] obtain N where
    N: "round_binary64 x = of_int (round_half_even (x * 2 ^ N)) / 2 ^ N" by blast
  from assms(1) have "of_int K * 2 ^ N \<le> x * 2 ^ N" by simp
  then have "of_int (K * 2 ^ N) \<le> x * 2 ^ N" by simp
  then have "K * 2 ^ N \<le> round_half_even (x * 2 ^ N)" by (rule round_half_even_ge)
  then have "(of_int (K * 2 ^ N) :: rat) \<le> of_int (round_half_even (x * 2 ^ N))"
    by (simp only: of_int_le_iff)
  then show ?thesis by (simp add: N field_simps)
qed

lemma round_binary64_error:
  assumes "\<bar>x\<bar> < 2 ^ k" and "0 < k" and "k \<le> 53"
  shows "\<bar>round_binary64 x - x\<bar> * 2 ^ 54 \<le> 2 ^ k"
proof (cases "x = 0")
  case True
  then show ?thesis by (simp add: round_binary64_def)
next
  case False
  from round_binary64_scale [OF False assms] obtain N where
    N: "53 \<le> N + k" "round_binary64 x = of_int (round_half_even (x * 2 ^ N)) / 2 ^ N" by blast
  have "\<bar>round_binary64 x - x\<bar> * 2 ^ N = \<bar>of_int (round_half_even (x * 2 ^ N)) - x * 2 ^ N\<bar>"
    by (simp add: N(2) abs_mult [symmetric] field_simps)
  also have "\<dots> \<le> 1 / 2" by (rule round_half_even_error)
  finally have "\<bar>round_binary64 x - x\<bar> * 2 ^ N * 2 \<le> 1" by simp
  then have "\<bar>round_binary64 x - x\<bar> * 2 ^ N * 2 * 2 ^ k \<le> 1 * 2 ^ k"
    by (intro mult_right_mono) simp_all
  then have le: "\<bar>round_binary64 x - x\<bar> * 2 ^ (N + k + 1) \<le> 2 ^ k"
    by (simp add: power_add mult_ac)
  have "(2::rat) ^ 54 \<le> 2 ^ (N + k + 1)"
    using N(1) by (intro power_increasing) simp_all
  then have "\<bar>round_binary64 x - x\<bar> * 2 ^ 54 \<le> \<bar>round_binary64 x - x\<bar> * 2 ^ (N + k + 1)"
    by (intro mult_left_mono) simp_all
  with le show ?thesis by linarith
qed

text \<open>The exponent is the right one: \<open>2 ^ e \<le> x < 2 ^ (e + 1)\<close> for \<open>e = floor_log2 x\<close>.\<close>

lemma power2_le_of_int: "2 ^ k \<le> n \<Longrightarrow> (2::rat) ^ k \<le> of_int n"
proof -
  assume "2 ^ k \<le> n"
  then have "(of_int (2 ^ k) :: rat) \<le> of_int n" by (simp only: of_int_le_iff)
  then show ?thesis by simp
qed

lemma of_int_le_power2: "n \<le> 2 ^ k \<Longrightarrow> (of_int n :: rat) \<le> 2 ^ k"
proof -
  assume "n \<le> 2 ^ k"
  then have "(of_int n :: rat) \<le> of_int (2 ^ k)" by (simp only: of_int_le_iff)
  then show ?thesis by simp
qed

lemma floor_log2_bounds:
  assumes "0 < x"
  shows "2 powi floor_log2 x \<le> x" and "x < 2 powi (floor_log2 x + 1)"
proof -
  have "2 powi floor_log2 x \<le> x \<and> x < 2 powi (floor_log2 x + 1)"
  proof (cases "1 \<le> x")
    case True
    define n where "n = \<lfloor>x\<rfloor>"
    from True have n: "0 < n" unfolding n_def by linarith
    have nx: "of_int n \<le> x" "x < of_int n + 1" unfolding n_def by linarith+
    from bitlen_bounds [OF n] have b: "2 ^ nat (bitlen n - 1) \<le> n" "n < 2 ^ nat (bitlen n)"
      by simp_all
    from n have b1: "1 \<le> bitlen n"
      using bitlen_eq_zero_iff [of n] bitlen_nonneg [of n] by linarith
    have e: "floor_log2 x = bitlen n - 1" using True by (simp add: floor_log2_def n_def)
    from power2_le_of_int [OF b(1)] nx(1)
    have lo: "(2::rat) ^ nat (bitlen n - 1) \<le> x" by linarith
    from b(2) have "n + 1 \<le> 2 ^ nat (bitlen n)" by simp
    from of_int_le_power2 [OF this] nx(2)
    have hi: "x < (2::rat) ^ nat (bitlen n)" by simp
    from lo hi b1 show ?thesis
      by (simp add: e power_int_def)
  next
    case False
    define y where "y = 1 / x"
    from False assms have y: "1 < y" by (simp add: y_def)
    define m where "m = \<lceil>y\<rceil> - 1"
    from y have m: "0 < m" unfolding m_def by linarith
    have my: "of_int m < y" "y \<le> of_int m + 1" unfolding m_def by linarith+
    from bitlen_bounds [OF m] have b: "2 ^ nat (bitlen m - 1) \<le> m" "m < 2 ^ nat (bitlen m)"
      by simp_all
    from m have b1: "1 \<le> bitlen m"
      using bitlen_eq_zero_iff [of m] bitlen_nonneg [of m] by linarith
    have e: "floor_log2 x = - bitlen m" using False by (simp add: floor_log2_def m_def y_def)
    from power2_le_of_int [OF b(1)] my(1)
    have lo: "(2::rat) ^ nat (bitlen m - 1) < y" by linarith
    from b(2) have "m + 1 \<le> 2 ^ nat (bitlen m)" by simp
    from of_int_le_power2 [OF this] my(2)
    have hi: "y \<le> (2::rat) ^ nat (bitlen m)" by simp
    from hi assms have 1: "1 / 2 ^ nat (bitlen m) \<le> x"
      by (simp add: y_def field_simps)
    from lo assms have 2: "x < 1 / 2 ^ nat (bitlen m - 1)"
      by (simp add: y_def field_simps)
    have p1: "(2::rat) powi (- bitlen m) = 1 / 2 ^ nat (bitlen m)"
      using b1 by (simp add: power_int_def field_simps)
    have p2: "(2::rat) powi (1 - bitlen m) = 1 / 2 ^ nat (bitlen m - 1)"
    proof (cases "bitlen m = 1")
      case True
      then show ?thesis by simp
    next
      case False
      with b1 have "1 - bitlen m < 0" "nat (- (1 - bitlen m)) = nat (bitlen m - 1)" by simp_all
      then show ?thesis by (simp add: power_int_def field_simps)
    qed
    from 1 2 show ?thesis by (simp add: e p1 p2)
  qed
  then show "2 powi floor_log2 x \<le> x" and "x < 2 powi (floor_log2 x + 1)" by simp_all
qed


text \<open>
  The rounded value is a binary64 value, an integer of at most 53 bits times a power
  of two that is at least \<open>2 ^ - 1074\<close>, and it is within half a unit in the last
  place of the argument.
\<close>

lemma round_binary64_grid:
  assumes "x \<noteq> 0"
  defines "e \<equiv> max (floor_log2 \<bar>x\<bar>) (- 1022) - 52"
  shows "\<exists>m. round_binary64 x = of_int m * 2 powi e \<and> \<bar>m\<bar> \<le> 2 ^ 53"
    and "\<bar>round_binary64 x - x\<bar> \<le> 2 powi e / 2"
    and "- 1074 \<le> e"
proof -
  define p :: rat where "p = 2 powi e"
  define q where "q = x / p"
  define m where "m = round_half_even q"
  have p: "0 < p" by (simp add: p_def)
  have r: "round_binary64 x = of_int m * p"
    using assms(1) by (simp add: round_binary64_def e_def p_def m_def q_def Let_def)
  from assms(1) have "\<bar>x\<bar> < 2 powi (floor_log2 \<bar>x\<bar> + 1)"
    by (intro floor_log2_bounds) simp
  also have "\<dots> \<le> 2 powi (e + 53)"
    by (intro power_int_increasing) (simp_all add: e_def)
  also have "\<dots> = p * 2 ^ 53"
    by (simp add: p_def power_int_add)
  finally have "\<bar>x\<bar> / p < 2 ^ 53" using p by (simp add: field_simps)
  then have "\<bar>q\<bar> < 2 ^ 53" using p by (simp add: q_def)
  then have q: "q \<le> of_int (2 ^ 53)" "of_int (- (2 ^ 53)) \<le> q"
    by (simp_all add: abs_less_iff)
  have "m \<le> 2 ^ 53" unfolding m_def using q(1) by (rule round_half_even_le)
  moreover have "- (2 ^ 53) \<le> m" unfolding m_def using q(2) by (rule round_half_even_ge)
  ultimately have "\<bar>m\<bar> \<le> 2 ^ 53" by simp
  with r show "\<exists>m. round_binary64 x = of_int m * 2 powi e \<and> \<bar>m\<bar> \<le> 2 ^ 53"
    unfolding p_def by blast
  have "\<bar>of_int m - q\<bar> \<le> 1 / 2"
    unfolding m_def by (rule round_half_even_error)
  then have a: "\<bar>of_int m - q\<bar> * p \<le> 1 / 2 * p"
    using p by (intro mult_right_mono) simp_all
  have "(of_int m - q) * p = of_int m * p - x"
    using p by (simp add: q_def field_simps)
  then have "\<bar>of_int m - q\<bar> * p = \<bar>of_int m * p - x\<bar>"
    using p abs_mult_pos [of p "of_int m - q"] by simp
  with a have "\<bar>of_int m * p - x\<bar> \<le> p / 2" by simp
  then show "\<bar>round_binary64 x - x\<bar> \<le> 2 powi e / 2"
    unfolding r p_def .
  show "- 1074 \<le> e" by (simp add: e_def)
qed

subsection \<open>Collecting the tokens\<close>

lemma collect_tokens_kept:
  assumes "collect_tokens d texts i text_parts confidences = Inr (text_parts', confidences')"
  shows "\<exists>ts cs. text_parts' = text_parts @ ts \<and> confidences' = confidences @ cs
           \<and> length cs = length ts
           \<and> (\<forall>c\<in>set cs. \<exists>col. conf_col d = Some col \<and> c \<in> set col)"
  using assms
proof (induction texts arbitrary: i text_parts confidences)
  case Nil
  then show ?case by simp
next
  case (Cons tx rest)
  show ?case
  proof (cases "truthy (py_strip tx)")
    case False
    with Cons.prems
    have "collect_tokens d rest (Suc i) text_parts confidences = Inr (text_parts', confidences')"
      by simp
    from Cons.IH [OF this] show ?thesis .
  next
    case True
    with Cons.prems obtain col where col: "conf_col d = Some col" "i < length col"
      and rec: "collect_tokens d rest (Suc i) (text_parts @ [tx]) (confidences @ [col ! i])
                  = Inr (text_parts', confidences')"
      by (auto split: option.splits if_splits)
    from Cons.IH [OF rec] obtain ts cs where
      k: "text_parts' = (text_parts @ [tx]) @ ts" "confidences' = (confidences @ [col ! i]) @ cs"
        "length cs = length ts" "\<forall>c\<in>set cs. \<exists>col. conf_col d = Some col \<and> c \<in> set col"
      by blast
    show ?thesis
    proof (intro exI conjI)
      show "text_parts' = text_parts @ (tx # ts)" using k(1) by simp
      show "confidences' = confidences @ (col ! i # cs)" using k(2) by simp
      show "length (col ! i # cs) = length (tx # ts)" using k(3) by simp
      show "\<forall>c\<in>set (col ! i # cs). \<exists>col. conf_col d = Some col \<and> c \<in> set col"
        using k(4) col by auto
    qed
  qed
qed

lemma collect_tokens_error:
  "collect_tokens d texts i text_parts confidences = Inl e \<Longrightarrow>
   e = IndexError \<or> e = KeyError (lit ''conf'')"
  by (induction texts arbitrary: i text_parts confidences)
     (auto split: option.splits if_splits)

lemma collect_tokens_token_data:
  "collect_tokens (token_data (pre @ tokens)) (map fst tokens) (length pre) text_parts confidences
     = Inr (text_parts @ map fst (kept_tokens tokens), confidences @ map snd (kept_tokens tokens))"
proof (induction tokens arbitrary: pre text_parts confidences)
  case Nil
  show ?case by (simp add: kept_tokens_def)
next
  case (Cons token tokens)
  have col: "conf_col (token_data (pre @ token # tokens)) = Some (map snd (pre @ token # tokens))"
    by (simp add: token_data_def)
  have at: "map snd (pre @ token # tokens) ! length pre = snd token"
    by (simp add: nth_append)
  from Cons.IH [of "pre @ [token]"]
  have IH: "collect_tokens (token_data (pre @ token # tokens)) (map fst tokens) (Suc (length pre)) tp cf
     = Inr (tp @ map fst (kept_tokens tokens), cf @ map snd (kept_tokens tokens))" for tp cf
    by simp
  show ?case
    by (simp add: col at IH kept_tokens_def truthy_def case_prod_beta del: map_append)
qed

subsection \<open>The average confidence\<close>

lemma sum_list_between:
  fixes cs :: "int list"
  assumes "\<forall>c\<in>set cs. lo \<le> c \<and> c \<le> hi"
  shows "lo * int (length cs) \<le> sum_list cs \<and> sum_list cs \<le> hi * int (length cs)"
  using assms by (induction cs) (auto simp: algebra_simps)

lemma mean_between:
  fixes cs :: "int list"
  assumes "cs \<noteq> []" and "\<forall>c\<in>set cs. lo \<le> c \<and> c \<le> hi"
  shows "(of_int lo :: rat) \<le> of_int (sum_list cs) / of_int (int (length cs))"
    and "(of_int (sum_list cs) :: rat) / of_int (int (length cs)) \<le> of_int hi"
proof -
  let ?n = "int (length cs)"
  from assms(1) have n: "(0::rat) < of_int ?n" by simp
  from sum_list_between [OF assms(2)]
  have "(of_int (lo * ?n) :: rat) \<le> of_int (sum_list cs)"
    and "(of_int (sum_list cs) :: rat) \<le> of_int (hi * ?n)"
    by (simp_all only: of_int_le_iff)
  with n show "(of_int lo :: rat) \<le> of_int (sum_list cs) / of_int ?n"
    and "(of_int (sum_list cs) :: rat) / of_int ?n \<le> of_int hi"
    by (simp_all add: field_simps)
qed

text \<open>
  For confidences between \<open>lo\<close> and \<open>hi\<close>, themselves between \<open>-100\<close> and \<open>100\<close>: neither
  division raises, both quotients stay between the bounds, and the result is within
  \<open>1 / 2 ^ 52\<close> of the exact mean over \<open>100\<close>.
\<close>

lemma average_confidence:
  fixes cs :: "int list"
  assumes "cs \<noteq> []" and "\<forall>c\<in>set cs. lo \<le> c \<and> c \<le> hi" and "- 100 \<le> lo" and "hi \<le> 100"
  defines "mean \<equiv> (of_int (sum_list cs) :: rat) / of_int (int (length cs))"
  defines "r1 \<equiv> round_binary64 mean"
  defines "r2 \<equiv> round_binary64 (r1 / 100)"
  shows "py_int_truediv (sum_list cs) (int (length cs)) = Inr (Finite r1)"
    and "py_float_truediv (Finite r1) (Finite 100) = Inr (Finite r2)"
    and "of_int lo \<le> r1" and "r1 \<le> of_int hi"
    and "of_int lo / 100 \<le> r1 / 100" and "r1 / 100 \<le> of_int hi / 100"
    and "\<bar>r2 - mean / 100\<bar> \<le> 1 / 2 ^ 52"
proof -
  from mean_between [OF assms(1,2)]
  have m: "of_int lo \<le> mean" "mean \<le> of_int hi" by (simp_all add: mean_def)
  from assms(3,4) have "(of_int (- 100) :: rat) \<le> of_int lo" "(of_int hi :: rat) \<le> of_int 100"
    by (simp_all only: of_int_le_iff)
  then have b: "(- 100 :: rat) \<le> of_int lo" "(of_int hi :: rat) \<le> 100"
    by simp_all
  with m have am: "\<bar>mean\<bar> < 2 ^ 7" by (simp add: abs_less_iff)
  from m(1) am show lo1: "of_int lo \<le> r1"
    unfolding r1_def by (rule round_binary64_ge) simp_all
  from m(2) am show hi1: "r1 \<le> of_int hi"
    unfolding r1_def by (rule round_binary64_le) simp_all
  from lo1 show "of_int lo / 100 \<le> r1 / 100" by simp
  from hi1 show "r1 / 100 \<le> of_int hi / 100" by simp
  from lo1 hi1 b have a1: "\<bar>r1\<bar> \<le> 100" by (simp add: abs_le_iff)
  then have "\<not> overflows r1" by (simp add: overflows_def)
  with assms(1) show "py_int_truediv (sum_list cs) (int (length cs)) = Inr (Finite r1)"
    by (simp add: py_int_truediv_def r1_def mean_def Let_def)
  from a1 have y: "of_int (- 1) \<le> r1 / 100" "r1 / 100 \<le> of_int 1" "\<bar>r1 / 100\<bar> < 2 ^ 1"
    by (simp_all add: abs_le_iff abs_less_iff)
  have "of_int (- 1) \<le> r2"
    unfolding r2_def using y(1,3) by (rule round_binary64_ge) simp_all
  moreover have "r2 \<le> of_int 1"
    unfolding r2_def using y(2,3) by (rule round_binary64_le) simp_all
  ultimately have "\<bar>r2\<bar> \<le> 1" by (simp add: abs_le_iff)
  then have "\<not> overflows r2" by (simp add: overflows_def)
  then show "py_float_truediv (Finite r1) (Finite 100) = Inr (Finite r2)"
    by (simp add: r2_def Let_def)
  from round_binary64_error [OF am] have e1: "\<bar>r1 - mean\<bar> * 2 ^ 54 \<le> 2 ^ 7"
    by (simp add: r1_def)
  from round_binary64_error [OF y(3)] have e2: "\<bar>r2 - r1 / 100\<bar> * 2 ^ 54 \<le> 2 ^ 1"
    by (simp add: r2_def)
  have "\<bar>r2 - mean / 100\<bar> \<le> \<bar>r2 - r1 / 100\<bar> + \<bar>r1 - mean\<bar> / 100"
    by (simp add: abs_le_iff abs_if field_simps)
  then have "\<bar>r2 - mean / 100\<bar> * 2 ^ 54 \<le> \<bar>r2 - r1 / 100\<bar> * 2 ^ 54 + \<bar>r1 - mean\<bar> * 2 ^ 54 / 100"
    by (simp add: field_simps)
  with e1 e2 have "\<bar>r2 - mean / 100\<bar> * 2 ^ 54 \<le> 4" by simp
  then show "\<bar>r2 - mean / 100\<bar> \<le> 1 / 2 ^ 52" by (simp add: field_simps)
qed

lemma py_int_truediv_nonzero: "b \<noteq> 0 \<Longrightarrow> py_int_truediv a b \<noteq> Inl ZeroDivisionError"
  by (simp add: py_int_truediv_def Let_def)

lemma py_float_truediv_100: "py_float_truediv x (Finite 100) \<noteq> Inl e"
  by simp

lemma score_tokens_collected:
  assumes "text_col d = Some texts"
    and "collect_tokens d texts 0 [] [] = Inr (text_parts, confidences)"
  shows "score_tokens d =
     (if text_parts \<noteq> [] then
        (case py_int_truediv (sum_list confidences) (int (length confidences)) of
           Inl e \<Rightarrow> Inl e
         | Inr mean \<Rightarrow>
             (case py_float_truediv mean (Finite 100) of
                Inl e \<Rightarrow> Inl e
              | Inr avg_confidence \<Rightarrow>
                  Inr (py_strip (py_join (lit '' '') text_parts), avg_confidence)))
      else Inr ([], Finite 0))"
  using assms by (simp add: score_tokens_def Let_def)

lemma score_tokens_no_zero_division: "score_tokens d \<noteq> Inl ZeroDivisionError"
proof (cases "text_col d")
  case None
  then show ?thesis by (simp add: score_tokens_def)
next
  case (Some texts)
  show ?thesis
  proof (cases "collect_tokens d texts 0 [] []")
    case (Inl e)
    with collect_tokens_error [OF this] Some show ?thesis
      by (auto simp: score_tokens_def)
  next
    case (Inr p)
    obtain text_parts confidences where p: "p = (text_parts, confidences)" by (cases p)
    from collect_tokens_kept [OF Inr [unfolded p]]
    have len: "length confidences = length text_parts" by auto
    show ?thesis
    proof (cases "text_parts = []")
      case True
      then show ?thesis
        by (simp add: score_tokens_collected [OF Some Inr [unfolded p]])
    next
      case False
      with len have "int (length confidences) \<noteq> 0" by simp
      from py_int_truediv_nonzero [OF this, of "sum_list confidences"] False show ?thesis
        by (auto simp: score_tokens_collected [OF Some Inr [unfolded p]]
            split: sum.splits)
    qed
  qed
qed

section \<open>The division of the average confidence\<close>

text \<open>
  C10.  In \<open>extract_failure_text_with_confidence\<close> no run of the body ends in a
  \<open>ZeroDivisionError\<close>, whatever the engine returns.  For every dictionary of the
  engine: when the loop over the tokens has kept at least one text, it has kept as
  many confidences as texts, so the divisor \<open>len(confidences)\<close> is at least 1 and the
  division does not raise \<open>ZeroDivisionError\<close>; when it has kept none, no division is
  evaluated.
\<close>

theorem no_division_by_zero:
  "fst (extract_failure_text_with_confidence_body w img s) \<noteq> Inl ZeroDivisionError
   \<and> score_tokens d \<noteq> Inl ZeroDivisionError
   \<and> (\<forall>texts text_parts confidences.
         text_col d = Some texts
         \<and> collect_tokens d texts 0 [] [] = Inr (text_parts, confidences)
         \<and> text_parts \<noteq> []
       \<longrightarrow> length confidences = length text_parts
           \<and> 1 \<le> length confidences
           \<and> py_int_truediv (sum_list confidences) (int (length confidences))
               \<noteq> Inl ZeroDivisionError)
   \<and> (\<forall>texts confidences.
         text_col d = Some texts \<and> collect_tokens d texts 0 [] [] = Inr ([], confidences)
       \<longrightarrow> score_tokens d = Inr ([], Finite 0))"
proof (intro conjI allI impI)
  show "fst (extract_failure_text_with_confidence_body w img s) \<noteq> Inl ZeroDivisionError"
  proof (cases "to_numpy w img")
    case (Inl e)
    then show ?thesis
      by (cases img)
         (auto simp: extract_failure_text_with_confidence_body_def to_numpy_def
            split: sum.splits)
  next
    case (Inr a)
    then show ?thesis
      using score_tokens_no_zero_division
      by (cases "image_to_data w a confidence_config ''eng'' (length (invocations s))")
         (simp_all add: extract_failure_text_with_confidence_body_def call_image_to_data_def)
  qed
  show "score_tokens d \<noteq> Inl ZeroDivisionError"
    by (rule score_tokens_no_zero_division)
next
  fix texts text_parts confidences
  assume h: "text_col d = Some texts
         \<and> collect_tokens d texts 0 [] [] = Inr (text_parts, confidences)
         \<and> text_parts \<noteq> []"
  with collect_tokens_kept [of d texts 0 "[]" "[]" text_parts confidences]
  show len: "length confidences = length text_parts" by auto
  with h show one: "1 \<le> length confidences" by (cases text_parts) simp_all
  then show "py_int_truediv (sum_list confidences) (int (length confidences))
               \<noteq> Inl ZeroDivisionError"
    by (intro py_int_truediv_nonzero) auto
next
  fix texts confidences
  assume "text_col d = Some texts \<and> collect_tokens d texts 0 [] [] = Inr ([], confidences)"
  then show "score_tokens d = Inr ([], Finite 0)"
    by (simp add: score_tokens_collected)
qed

text \<open>
  An instance: of the tokens \<open>12\<close> (90), the empty token (0) and \<open>%\<close> (80), two are kept,
  and the divisor is 2.
\<close>

lemma strip_example: "py_strip (lit ''12'') = lit ''12''" "py_strip (lit ''%'') = lit ''%''"
  by (simp_all add: lit_def py_strip_def py_lstrip_def py_rstrip_def isspace_cp_def in_ranges_def
      whitespace_ranges_def)

lemma kept_example: "kept_tokens example_tokens = [(lit ''12'', 90), (lit ''%'', 80)]"
  by (simp add: kept_tokens_def example_tokens_def strip_example) (simp add: lit_def)

lemma collect_example:
  "collect_tokens (token_data example_tokens) [lit ''12'', [], lit ''%''] 0 [] []
     = Inr ([lit ''12'', lit ''%''], [90, 80])"
proof -
  have m: "map fst example_tokens = [lit ''12'', [], lit ''%'']"
    by (simp add: example_tokens_def)
  have "collect_tokens (token_data example_tokens) (map fst example_tokens) 0 [] []
      = Inr (map fst (kept_tokens example_tokens), map snd (kept_tokens example_tokens))"
    using collect_tokens_token_data [of "[]" example_tokens "[]" "[]"] by simp
  then show ?thesis
    by (simp only: m kept_example list.map fst_conv snd_conv)
qed

theorem no_division_by_zero_witness:
  "text_col (token_data example_tokens) = Some [lit ''12'', [], lit ''%'']
   \<and> collect_tokens (token_data example_tokens) [lit ''12'', [], lit ''%''] 0 [] []
       = Inr ([lit ''12'', lit ''%''], [90, 80])
   \<and> [lit ''12'', lit ''%''] \<noteq> []
   \<and> length [90, 80 :: int] = length [lit ''12'', lit ''%'']
   \<and> 1 \<le> length [90, 80 :: int]
   \<and> py_int_truediv (sum_list [90, 80]) (int (length [90, 80 :: int])) \<noteq> Inl ZeroDivisionError"
proof -
  have h: "text_col (token_data example_tokens) = Some [lit ''12'', [], lit ''%'']
      \<and> collect_tokens (token_data example_tokens) [lit ''12'', [], lit ''%''] 0 [] []
          = Inr ([lit ''12'', lit ''%''], [90, 80])
      \<and> [lit ''12'', lit ''%''] \<noteq> []"
  proof (intro conjI)
    show "text_col (token_data example_tokens) = Some [lit ''12'', [], lit ''%'']"
      by (simp add: token_data_def example_tokens_def)
    show "collect_tokens (token_data example_tokens) [lit ''12'', [], lit ''%''] 0 [] []
          = Inr ([lit ''12'', lit ''%''], [90, 80])"
      by (rule collect_example)
    show "[lit ''12'', lit ''%''] \<noteq> []" by (rule list.distinct(2))
  qed
  from no_division_by_zero [THEN conjunct2, THEN conjunct2, THEN conjunct1, rule_format, OF h] h
  show ?thesis by blast
qed

section \<open>The example token list, evaluated\<close>

lemma truediv_170_2: "py_int_truediv 170 2 = Inr (Finite 85)"
  by code_simp

lemma truediv_85_100:
  "py_float_truediv (Finite 85) (Finite 100) = Inr (Finite (7656119366529843 / 9007199254740992))"
  by code_simp

lemma join_example: "py_strip (py_join (lit '' '') [lit ''12'', lit ''%'']) = lit ''12 %''"
  by (simp add: lit_def py_strip_def py_lstrip_def py_rstrip_def isspace_cp_def in_ranges_def
      whitespace_ranges_def)

lemma score_example:
  "score_tokens (token_data example_tokens)
     = Inr (lit ''12 %'', Finite (7656119366529843 / 9007199254740992))"
proof -
  have t: "text_col (token_data example_tokens) = Some [lit ''12'', [], lit ''%'']"
    by (simp add: token_data_def example_tokens_def)
  have n: "sum_list [90, 80 :: int] = 170" "int (length [90, 80 :: int]) = 2"
    by simp_all
  show ?thesis
    unfolding score_tokens_collected [OF t collect_example]
    by (simp only: n truediv_170_2 truediv_85_100 join_example sum.case list.distinct
        simp_thms if_True)
qed

lemma extract_example:
  "fst (extract_failure_text_with_confidence
          (scripted reads_nothing (Inr (token_data example_tokens))) (PilImage ()) start)
     = (lit ''12 %'', Finite (7656119366529843 / 9007199254740992))"
  by (simp add: extract_failure_text_with_confidence_def
      extract_failure_text_with_confidence_body_def call_image_to_data_def scripted_def
      to_numpy_def score_example)

section \<open>The confidence lies between 0 and 1\<close>

lemma score_tokens_unit_interval:
  assumes range: "\<forall>col. conf_col d = Some col \<longrightarrow> (\<forall>c\<in>set col. 0 \<le> c \<and> c \<le> 100)"
    and out: "score_tokens d = Inr (full_text, confidence)"
  shows "\<exists>q. confidence = Finite q \<and> 0 \<le> q \<and> q \<le> 1"
proof -
  from out obtain texts where texts: "text_col d = Some texts"
    by (auto simp: score_tokens_def split: option.splits)
  with out obtain text_parts confidences where
    coll: "collect_tokens d texts 0 [] [] = Inr (text_parts, confidences)"
    by (auto simp: score_tokens_def split: sum.splits)
  note score = score_tokens_collected [OF texts coll]
  show ?thesis
  proof (cases "text_parts = []")
    case True
    with out score have "confidence = Finite 0" by simp
    then show ?thesis by simp
  next
    case False
    from collect_tokens_kept [OF coll] range
    have len: "length confidences = length text_parts"
      and cs: "\<forall>c\<in>set confidences. 0 \<le> c \<and> c \<le> 100"
      by auto
    from len False have ne: "confidences \<noteq> []" by auto
    let ?r1 = "round_binary64 (of_int (sum_list confidences) / of_int (int (length confidences)))"
    let ?r2 = "round_binary64 (?r1 / 100)"
    note avg = average_confidence [OF ne cs]
    have d1: "py_int_truediv (sum_list confidences) (int (length confidences)) = Inr (Finite ?r1)"
      by (rule avg(1)) simp_all
    have d2: "py_float_truediv (Finite ?r1) (Finite 100) = Inr (Finite ?r2)"
      by (rule avg(2)) simp_all
    have "of_int 0 / 100 \<le> ?r1 / 100" by (rule avg(5)) simp_all
    then have lo: "of_int 0 \<le> ?r1 / 100" by simp
    have "?r1 / 100 \<le> of_int 100 / 100" by (rule avg(6)) simp_all
    then have hi: "?r1 / 100 \<le> of_int 1" by simp
    from lo hi have small: "\<bar>?r1 / 100\<bar> < 2 ^ 1" by (simp add: abs_less_iff)
    have "of_int 0 \<le> ?r2" using lo small by (rule round_binary64_ge) simp_all
    moreover have "?r2 \<le> of_int 1" using hi small by (rule round_binary64_le) simp_all
    moreover from out score False d1 d2 have "confidence = Finite ?r2" by simp
    ultimately show ?thesis by simp
  qed
qed

text \<open>
  C8.  For every image and every engine whose dictionaries carry only confidences
  between 0 and 100 (whatever else they carry: any texts, columns of different
  lengths, a missing column, or an error instead of a dictionary), the confidence
  \<open>extract_failure_text_with_confidence\<close> returns is a finite float between \<open>0.0\<close> and
  \<open>1.0\<close>, in binary64 arithmetic.
\<close>

theorem confidence_in_unit_interval:
  "(\<forall>a config lang n d col.
       image_to_data w a config lang n = Inr d \<and> conf_col d = Some col
       \<longrightarrow> (\<forall>c\<in>set col. 0 \<le> c \<and> c \<le> 100))
   \<Longrightarrow> \<exists>q. snd (fst (extract_failure_text_with_confidence w img s)) = Finite q
           \<and> 0 \<le> q \<and> q \<le> 1"
proof -
  assume range: "\<forall>a config lang n d col.
       image_to_data w a config lang n = Inr d \<and> conf_col d = Some col
       \<longrightarrow> (\<forall>c\<in>set col. 0 \<le> c \<and> c \<le> 100)"
  obtain r s' where out: "extract_failure_text_with_confidence_body w img s = (r, s')"
    by (cases "extract_failure_text_with_confidence_body w img s")
  show ?thesis
  proof (cases r)
    case (Inl e)
    then show ?thesis
      by (simp add: extract_failure_text_with_confidence_def out except_warning_Inl)
  next
    case (Inr v)
    obtain full_text confidence where v: "v = (full_text, confidence)" by (cases v)
    from out Inr obtain a d where
      d: "image_to_data w a confidence_config ''eng'' (length (invocations s)) = Inr d"
        "score_tokens d = Inr (full_text, confidence)"
      by (auto simp: extract_failure_text_with_confidence_body_def call_image_to_data_def v
          split: sum.splits)
    from range d(1) have "\<forall>col. conf_col d = Some col \<longrightarrow> (\<forall>c\<in>set col. 0 \<le> c \<and> c \<le> 100)"
      by blast
    from score_tokens_unit_interval [OF this d(2)] show ?thesis
      by (simp add: extract_failure_text_with_confidence_def out Inr v)
  qed
qed


text \<open>
  An instance: the tokens \<open>12\<close> (90), the empty token (0) and \<open>%\<close> (80) give the
  confidence \<open>0.85\<close>, that is the binary64 value \<open>7656119366529843 / 2 ^ 53\<close>.
\<close>

theorem confidence_in_unit_interval_witness:
  "snd (fst (extract_failure_text_with_confidence
               (scripted reads_nothing (Inr (token_data example_tokens))) (PilImage ()) start))
     = Finite (7656119366529843 / 9007199254740992)
   \<and> (0::rat) \<le> 7656119366529843 / 9007199254740992
   \<and> 7656119366529843 / 9007199254740992 \<le> (1::rat)"
proof -
  let ?w = "scripted reads_nothing (Inr (token_data example_tokens))"
  have range: "\<forall>a config lang n d col.
       image_to_data ?w a config lang n = Inr d \<and> conf_col d = Some col
       \<longrightarrow> (\<forall>c\<in>set col. 0 \<le> c \<and> c \<le> 100)"
    by (auto simp: scripted_def token_data_def example_tokens_def)
  from confidence_in_unit_interval [OF range, of "PilImage ()" start]
  show ?thesis by (simp add: extract_example)
qed

section \<open>Text and confidence of extract_failure_text_with_confidence\<close>

lemma score_tokens_token_data:
  "score_tokens (token_data tokens) =
     (if kept_tokens tokens \<noteq> [] then
        (case py_int_truediv (sum_list (map snd (kept_tokens tokens)))
                (int (length (kept_tokens tokens))) of
           Inl e \<Rightarrow> Inl e
         | Inr mean \<Rightarrow>
             (case py_float_truediv mean (Finite 100) of
                Inl e \<Rightarrow> Inl e
              | Inr avg_confidence \<Rightarrow>
                  Inr (py_strip (py_join (lit '' '') (map fst (kept_tokens tokens))),
                       avg_confidence)))
      else Inr ([], Finite 0))"
proof -
  have t: "text_col (token_data tokens) = Some (map fst tokens)"
    by (simp add: token_data_def)
  have c: "collect_tokens (token_data tokens) (map fst tokens) 0 [] []
      = Inr (map fst (kept_tokens tokens), map snd (kept_tokens tokens))"
    using collect_tokens_token_data [of "[]" tokens "[]" "[]"] by simp
  show ?thesis
    unfolding score_tokens_collected [OF t c] by simp
qed

text \<open>
  C2.  When the engine returns the token list \<open>tokens\<close>, the loop keeps exactly the
  texts and the confidences of the tokens whose trimmed text is not empty, in order.
  If the confidences of the kept tokens are between \<open>-100\<close> and \<open>100\<close> (the engine gives
  0 to 100, and \<open>-1\<close> where it has none): with no token kept the result is the empty
  string with confidence \<open>0.0\<close>; otherwise the text is the kept texts joined by single
  spaces and then trimmed, and the confidence is the float \<open>sum / len / 100.0\<close>, that
  is the exact mean rounded to binary64, divided by 100 and rounded again, which is
  within \<open>1 / 2 ^ 52\<close> of the exact mean divided by 100.
\<close>

theorem text_and_mean_confidence:
  "collect_tokens (token_data tokens) (map fst tokens) 0 [] []
     = Inr (map fst (kept_tokens tokens), map snd (kept_tokens tokens))
   \<and> (to_numpy w img = Inr a
        \<and> image_to_data w a confidence_config ''eng'' (length (invocations s))
            = Inr (token_data tokens)
        \<and> (\<forall>c\<in>set (map snd (kept_tokens tokens)). - 100 \<le> c \<and> c \<le> 100)
      \<longrightarrow> (kept_tokens tokens = []
             \<longrightarrow> fst (extract_failure_text_with_confidence w img s) = ([], Finite 0))
          \<and> (kept_tokens tokens \<noteq> []
             \<longrightarrow> fst (extract_failure_text_with_confidence w img s) =
                   (py_strip (py_join (lit '' '') (map fst (kept_tokens tokens))),
                    Finite (round_binary64
                              (round_binary64 (mean_of (map snd (kept_tokens tokens))) / 100)))
                 \<and> \<bar>round_binary64
                       (round_binary64 (mean_of (map snd (kept_tokens tokens))) / 100)
                     - mean_of (map snd (kept_tokens tokens)) / 100\<bar> \<le> 1 / 2 ^ 52))"
proof (intro conjI impI)
  show "collect_tokens (token_data tokens) (map fst tokens) 0 [] []
     = Inr (map fst (kept_tokens tokens), map snd (kept_tokens tokens))"
    using collect_tokens_token_data [of "[]" tokens "[]" "[]"] by simp
next
  assume h: "to_numpy w img = Inr a
        \<and> image_to_data w a confidence_config ''eng'' (length (invocations s))
            = Inr (token_data tokens)
        \<and> (\<forall>c\<in>set (map snd (kept_tokens tokens)). - 100 \<le> c \<and> c \<le> 100)"
  then have run: "fst (extract_failure_text_with_confidence w img s) =
      (case score_tokens (token_data tokens) of Inl e \<Rightarrow> ([], Finite 0) | Inr v \<Rightarrow> v)"
    by (simp add: extract_failure_text_with_confidence_def
        extract_failure_text_with_confidence_body_def call_image_to_data_def
        fst_except_warning)
  {
    assume "kept_tokens tokens = []"
    then show "fst (extract_failure_text_with_confidence w img s) = ([], Finite 0)"
      by (simp add: run score_tokens_token_data)
  }
  assume ne: "kept_tokens tokens \<noteq> []"
  let ?cs = "map snd (kept_tokens tokens)"
  from ne have cs: "?cs \<noteq> []" by simp
  from h have range: "\<forall>c\<in>set ?cs. - 100 \<le> c \<and> c \<le> 100" by blast
  have b: "- 100 \<le> (- 100 :: int)" "(100 :: int) \<le> 100" by simp_all
  note avg = average_confidence [OF cs range b]
  have d1: "py_int_truediv (sum_list ?cs) (int (length (kept_tokens tokens)))
      = Inr (Finite (round_binary64 (mean_of ?cs)))"
    using avg(1) by (simp add: mean_of_def)
  have d2: "py_float_truediv (Finite (round_binary64 (mean_of ?cs))) (Finite 100)
      = Inr (Finite (round_binary64 (round_binary64 (mean_of ?cs) / 100)))"
    using avg(2) by (simp only: mean_of_def)
  show "fst (extract_failure_text_with_confidence w img s) =
                   (py_strip (py_join (lit '' '') (map fst (kept_tokens tokens))),
                    Finite (round_binary64 (round_binary64 (mean_of ?cs) / 100)))"
    unfolding run score_tokens_token_data using ne by (simp only: d1 d2 if_True sum.case simp_thms)
  show "\<bar>round_binary64 (round_binary64 (mean_of ?cs) / 100) - mean_of ?cs / 100\<bar> \<le> 1 / 2 ^ 52"
    using avg(7) by (simp only: mean_of_def)
qed


text \<open>
  The instance of the claim: for the tokens \<open>12\<close> (90), the empty token (0) and \<open>%\<close>
  (80) the result is the text \<open>12 %\<close> with the confidence \<open>0.85\<close>, the binary64 value
  \<open>7656119366529843 / 2 ^ 53\<close>.
\<close>

lemma round_example:
  "round_binary64 (round_binary64 (mean_of [90, 80]) / 100) = 7656119366529843 / 9007199254740992"
  by code_simp

theorem text_and_mean_confidence_witness:
  "kept_tokens example_tokens = [(lit ''12'', 90), (lit ''%'', 80)]
   \<and> fst (extract_failure_text_with_confidence
            (scripted reads_nothing (Inr (token_data example_tokens))) (PilImage ()) start)
       = (lit ''12 %'', Finite (7656119366529843 / 9007199254740992))
   \<and> \<bar>7656119366529843 / 9007199254740992 - mean_of [90, 80] / 100\<bar> \<le> (1 / 2 ^ 52 :: rat)"
proof -
  let ?w = "scripted reads_nothing (Inr (token_data example_tokens))"
  have h: "to_numpy ?w (PilImage ()) = Inr ()
        \<and> image_to_data ?w () confidence_config ''eng'' (length (invocations start))
            = Inr (token_data example_tokens)
        \<and> (\<forall>c\<in>set (map snd (kept_tokens example_tokens)). - 100 \<le> c \<and> c \<le> 100)"
    by (simp add: kept_example) (simp add: scripted_def)
  have ne: "kept_tokens example_tokens \<noteq> []"
    by (simp add: kept_example)
  from text_and_mean_confidence [of example_tokens ?w "PilImage ()" "()" start,
      THEN conjunct2, rule_format, OF h, THEN conjunct2, rule_format, OF ne]
  show ?thesis
    by (simp only: kept_example list.map fst_conv snd_conv join_example round_example simp_thms)
qed

end
